theory Spec2Isabelle
  imports Main "HOL-Library.Word" "HOL-Library.Sublist"
begin

unbundle bit_operations_syntax

section \<open>gRPC-Web frame translation (package grpcweb)\<close>

text \<open>
  A shallow embedding of \<^verbatim>\<open>grpcweb.go\<close>. Go byte slices are lists of 8-bit words,
  \<^verbatim>\<open>uint32\<close> is a 32-bit word (addition wraps, conversion from \<^verbatim>\<open>int\<close> truncates),
  \<^verbatim>\<open>http.Header\<close> is a map from field name to its list of values, and every method that
  mutates its receiver returns the updated receiver next to its Go result.
\<close>

type_synonym byte = "8 word"
type_synonym uint32 = "32 word"
type_synonym Header = "string \<rightharpoonup> string list"

subsection \<open>Constants\<close>

definition ContentTypeGRPCWeb :: string where
  "ContentTypeGRPCWeb = ''application/grpc-web''"

definition ContentTypeGRPCWebText :: string where
  "ContentTypeGRPCWebText = ''application/grpc-web-text''"

definition ContentTypeGRPCWebProto :: string where
  "ContentTypeGRPCWebProto = ''application/grpc-web+proto''"

definition ContentTypeGRPCWebTextProto :: string where
  "ContentTypeGRPCWebTextProto = ''application/grpc-web-text+proto''"

definition ContentTypeGRPC :: string where
  "ContentTypeGRPC = ''application/grpc''"

definition grpcDataFrame :: byte where
  "grpcDataFrame = 0x00"

definition grpcTrailerFrame :: byte where
  "grpcTrailerFrame = 0x80"

definition StatusOK :: int where
  "StatusOK = 200"

subsection \<open>Errors\<close>

text \<open>
  The error values the package returns or passes on: the two sentinel errors of package
  \<^verbatim>\<open>io\<close>, a failure of the underlying source or sink, and \<^verbatim>\<open>fmt.Errorf("...: %w", err)\<close>,
  which is a new error value around \<^verbatim>\<open>err\<close>.
\<close>

datatype error =
    EOF
  | ErrUnexpectedEOF
  | IOError string
  | Wrapped string error

subsection \<open>Library functions of package strings\<close>

text \<open>
  The functions of Go's standard library that the package calls are not part of its
  sources. This and the following subsections model them after their documentation, as
  far as the package uses them.
\<close>

definition HasPrefix :: "string \<Rightarrow> string \<Rightarrow> bool" where
  "HasPrefix s p = prefix p s"

definition HasSuffix :: "string \<Rightarrow> string \<Rightarrow> bool" where
  "HasSuffix s p = suffix p s"

definition Contains :: "string \<Rightarrow> string \<Rightarrow> bool" where
  "Contains s sub = sublist sub s"


text \<open>
  \<^verbatim>\<open>strings.Split(s, ",")\<close> for a one-character separator: the pieces between the
  separators, so a string without separator (the empty one too) gives one piece.
\<close>

fun Split :: "string \<Rightarrow> char \<Rightarrow> string list" where
  "Split [] sep = [[]]"
| "Split (c # cs) sep =
     (if c = sep then [] # Split cs sep
      else (case Split cs sep of
              [] \<Rightarrow> [[c]]
            | x # xs \<Rightarrow> (c # x) # xs))"

text \<open>
  \<^verbatim>\<open>strings.TrimSpace\<close> on the ASCII white space characters (tab, line feed, vertical tab,
  form feed, carriage return, space).
\<close>

definition isSpace :: "char \<Rightarrow> bool" where
  "isSpace c = ((of_char c :: nat) \<in> {9, 10, 11, 12, 13, 32})"

definition TrimSpace :: "string \<Rightarrow> string" where
  "TrimSpace s = rev (dropWhile isSpace (rev (dropWhile isSpace s)))"

subsection \<open>Library functions of package encoding/binary\<close>

text \<open>
  \<^verbatim>\<open>binary.BigEndian.Uint32(b)\<close> and \<^verbatim>\<open>binary.BigEndian.PutUint32(b, v)\<close> on a slice of
  four bytes, by the shifts the library uses.
\<close>

definition Uint32 :: "byte list \<Rightarrow> uint32" where
  "Uint32 b =
     (ucast (b ! 3) OR push_bit 8 (ucast (b ! 2)) OR push_bit 16 (ucast (b ! 1))
        OR push_bit 24 (ucast (b ! 0)))"

definition PutUint32 :: "uint32 \<Rightarrow> byte list" where
  "PutUint32 v = [ucast (drop_bit 24 v), ucast (drop_bit 16 v), ucast (drop_bit 8 v), ucast v]"

subsection \<open>Library functions of package net/http\<close>

text \<open>
  \<^verbatim>\<open>http.CanonicalHeaderKey\<close>: a key with a byte that is not a token character is returned
  as it is; otherwise the first letter and every letter after a hyphen become upper case
  and all other letters lower case.
\<close>

definition isLower :: "char \<Rightarrow> bool" where
  "isLower c = (97 \<le> (of_char c :: nat) \<and> (of_char c :: nat) \<le> 122)"

definition isUpper :: "char \<Rightarrow> bool" where
  "isUpper c = (65 \<le> (of_char c :: nat) \<and> (of_char c :: nat) \<le> 90)"

definition isDigit :: "char \<Rightarrow> bool" where
  "isDigit c = (48 \<le> (of_char c :: nat) \<and> (of_char c :: nat) \<le> 57)"

definition validHeaderFieldByte :: "char \<Rightarrow> bool" where
  "validHeaderFieldByte c =
     (isLower c \<or> isUpper c \<or> isDigit c \<or> c \<in> set ''!#$%&*+-.^_`|~'' \<or> c = CHR 0x27)"

fun canonicalMIMEHeaderKey :: "bool \<Rightarrow> string \<Rightarrow> string" where
  "canonicalMIMEHeaderKey upper [] = []"
| "canonicalMIMEHeaderKey upper (c # cs) =
     (let c' = (if upper \<and> isLower c then char_of ((of_char c :: nat) - 32)
                else if \<not> upper \<and> isUpper c then char_of ((of_char c :: nat) + 32)
                else c)
      in c' # canonicalMIMEHeaderKey (c' = CHR ''-'') cs)"

definition CanonicalHeaderKey :: "string \<Rightarrow> string" where
  "CanonicalHeaderKey s =
     (if list_all validHeaderFieldByte s then canonicalMIMEHeaderKey True s else s)"

text \<open>The methods \<^verbatim>\<open>Get\<close>, \<^verbatim>\<open>Set\<close> and \<^verbatim>\<open>Add\<close> of \<^verbatim>\<open>http.Header\<close>.\<close>

definition Header_Get :: "Header \<Rightarrow> string \<Rightarrow> string" where
  "Header_Get h key =
     (case h (CanonicalHeaderKey key) of
        None \<Rightarrow> []
      | Some [] \<Rightarrow> []
      | Some (v # vs) \<Rightarrow> v)"

definition Header_Set :: "Header \<Rightarrow> string \<Rightarrow> string \<Rightarrow> Header" where
  "Header_Set h key v = h(CanonicalHeaderKey key \<mapsto> [v])"

definition Header_Add :: "Header \<Rightarrow> string \<Rightarrow> string \<Rightarrow> Header" where
  "Header_Add h key v =
     h(CanonicalHeaderKey key \<mapsto>
         (case h (CanonicalHeaderKey key) of None \<Rightarrow> [] | Some vs \<Rightarrow> vs) @ [v])"

text \<open>The status codes of net/http that the package names.\<close>

definition StatusBadRequest :: int where "StatusBadRequest = 400"
definition StatusUnauthorized :: int where "StatusUnauthorized = 401"
definition StatusForbidden :: int where "StatusForbidden = 403"
definition StatusNotFound :: int where "StatusNotFound = 404"
definition StatusTooManyRequests :: int where "StatusTooManyRequests = 429"
definition StatusBadGateway :: int where "StatusBadGateway = 502"
definition StatusServiceUnavailable :: int where "StatusServiceUnavailable = 503"
definition StatusGatewayTimeout :: int where "StatusGatewayTimeout = 504"

text \<open>
  Modelled from the spec: \<^verbatim>\<open>http.StatusText\<close> is library code outside the repository's
  sources; the specification calls its result the standard text description of the status
  code. The table is the one of package net/http, which gives the reason phrase of every
  status code it lists and the empty string for every other code.
\<close>

definition statusText :: "(int \<times> string) list" where
  "statusText =
     [(100, ''Continue''), (101, ''Switching Protocols''), (102, ''Processing''),
      (103, ''Early Hints''),
      (200, ''OK''), (201, ''Created''), (202, ''Accepted''),
      (203, ''Non-Authoritative Information''), (204, ''No Content''),
      (205, ''Reset Content''), (206, ''Partial Content''), (207, ''Multi-Status''),
      (208, ''Already Reported''), (226, ''IM Used''),
      (300, ''Multiple Choices''), (301, ''Moved Permanently''), (302, ''Found''),
      (303, ''See Other''), (304, ''Not Modified''), (305, ''Use Proxy''),
      (307, ''Temporary Redirect''), (308, ''Permanent Redirect''),
      (400, ''Bad Request''), (401, ''Unauthorized''), (402, ''Payment Required''),
      (403, ''Forbidden''), (404, ''Not Found''), (405, ''Method Not Allowed''),
      (406, ''Not Acceptable''), (407, ''Proxy Authentication Required''),
      (408, ''Request Timeout''), (409, ''Conflict''), (410, ''Gone''),
      (411, ''Length Required''), (412, ''Precondition Failed''),
      (413, ''Request Entity Too Large''), (414, ''Request URI Too Long''),
      (415, ''Unsupported Media Type''), (416, ''Requested Range Not Satisfiable''),
      (417, ''Expectation Failed''), (418, ''I'' @ [CHR 0x27] @ ''m a teapot''),
      (421, ''Misdirected Request''), (422, ''Unprocessable Entity''), (423, ''Locked''),
      (424, ''Failed Dependency''), (425, ''Too Early''), (426, ''Upgrade Required''),
      (428, ''Precondition Required''), (429, ''Too Many Requests''),
      (431, ''Request Header Fields Too Large''),
      (451, ''Unavailable For Legal Reasons''),
      (500, ''Internal Server Error''), (501, ''Not Implemented''), (502, ''Bad Gateway''),
      (503, ''Service Unavailable''), (504, ''Gateway Timeout''),
      (505, ''HTTP Version Not Supported''), (506, ''Variant Also Negotiates''),
      (507, ''Insufficient Storage''), (508, ''Loop Detected''), (510, ''Not Extended''),
      (511, ''Network Authentication Required'')]"

definition StatusText :: "int \<Rightarrow> string" where
  "StatusText code = (case map_of statusText code of None \<Rightarrow> [] | Some s \<Rightarrow> s)"

subsection \<open>Library functions of package strconv\<close>

text \<open>\<^verbatim>\<open>strconv.Itoa\<close>: the decimal digits of an integer, after a minus sign when negative.\<close>

fun digits :: "nat \<Rightarrow> string" where
  "digits n =
     (if n < 10 then [''0123456789'' ! n]
      else digits (n div 10) @ [''0123456789'' ! (n mod 10)])"

declare digits.simps [simp del]

definition Itoa :: "int \<Rightarrow> string" where
  "Itoa i = (if i < 0 then CHR ''-'' # digits (nat (- i)) else digits (nat i))"

subsection \<open>The status codes of google.golang.org/grpc/codes\<close>

datatype Code =
    OK | Canceled | Unknown | InvalidArgument | DeadlineExceeded | NotFound
  | AlreadyExists | PermissionDenied | ResourceExhausted | FailedPrecondition
  | Aborted | OutOfRange | Unimplemented | Internal | Unavailable | DataLoss
  | Unauthenticated

text \<open>\<^verbatim>\<open>int(code)\<close>: the number of a code.\<close>

fun int_of_Code :: "Code \<Rightarrow> int" where
  "int_of_Code OK = 0"
| "int_of_Code Canceled = 1"
| "int_of_Code Unknown = 2"
| "int_of_Code InvalidArgument = 3"
| "int_of_Code DeadlineExceeded = 4"
| "int_of_Code NotFound = 5"
| "int_of_Code AlreadyExists = 6"
| "int_of_Code PermissionDenied = 7"
| "int_of_Code ResourceExhausted = 8"
| "int_of_Code FailedPrecondition = 9"
| "int_of_Code Aborted = 10"
| "int_of_Code OutOfRange = 11"
| "int_of_Code Unimplemented = 12"
| "int_of_Code Internal = 13"
| "int_of_Code Unavailable = 14"
| "int_of_Code DataLoss = 15"
| "int_of_Code Unauthenticated = 16"

subsection \<open>Status code mapping and negotiation helpers\<close>

definition httpStatusToGrpcCode :: "int \<Rightarrow> Code" where
  "httpStatusToGrpcCode httpStatusCode =
     (if httpStatusCode = StatusOK then OK
      else if httpStatusCode = StatusBadRequest then Internal
      else if httpStatusCode = StatusUnauthorized then Unauthenticated
      else if httpStatusCode = StatusForbidden then PermissionDenied
      else if httpStatusCode = StatusNotFound then Unimplemented
      else if httpStatusCode = StatusTooManyRequests \<or> httpStatusCode = StatusBadGateway
              \<or> httpStatusCode = StatusServiceUnavailable
              \<or> httpStatusCode = StatusGatewayTimeout then Unavailable
      else Unknown)"

text \<open>The two fields of \<^verbatim>\<open>http.Request\<close> that the helpers read.\<close>

record Request =
  Method :: string
  Header :: Header

definition IsGRPCWebRequest :: "Request \<Rightarrow> bool" where
  "IsGRPCWebRequest r =
     (Method r = ''POST'' \<and> HasPrefix (Header_Get (Header r) ''Content-Type'') ContentTypeGRPCWeb)"

definition IsTextRequest :: "Request \<Rightarrow> bool" where
  "IsTextRequest r =
     (let contentType = Header_Get (Header r) ''Content-Type'';
          accept = Header_Get (Header r) ''Accept''
      in HasSuffix contentType ''-text'' \<or> Contains accept ContentTypeGRPCWebText)"

subsection \<open>The underlying \<^verbatim>\<open>http.ResponseWriter\<close>\<close>

text \<open>
  The response writer of the transport is an interface value of package net/http. The
  model records what the package does to it: the header map that \<^verbatim>\<open>Header()\<close> returns,
  the arguments of the calls of \<^verbatim>\<open>WriteHeader\<close>, the bytes that \<^verbatim>\<open>Write\<close> accepted and the
  number of calls of \<^verbatim>\<open>Flush\<close>. A writer whose peer is gone (\<open>rw_broken\<close>) answers every
  \<^verbatim>\<open>Write\<close> with an error; \<open>rw_flusher\<close> says that the value implements \<^verbatim>\<open>http.Flusher\<close>.
\<close>

record ResponseWriter =
  rw_header :: Header
  rw_status :: "int list"
  rw_body :: "byte list"
  rw_flushes :: nat
  rw_broken :: bool
  rw_flusher :: bool

definition rw_Write :: "ResponseWriter \<Rightarrow> byte list \<Rightarrow> error option \<times> ResponseWriter" where
  "rw_Write w p =
     (if rw_broken w then (Some (IOError ''write failed''), w)
      else (None, w\<lparr>rw_body := rw_body w @ p\<rparr>))"

definition rw_WriteHeader :: "ResponseWriter \<Rightarrow> int \<Rightarrow> ResponseWriter" where
  "rw_WriteHeader w statusCode = w\<lparr>rw_status := rw_status w @ [statusCode]\<rparr>"

definition rw_Flush :: "ResponseWriter \<Rightarrow> ResponseWriter" where
  "rw_Flush w = w\<lparr>rw_flushes := Suc (rw_flushes w)\<rparr>"

subsection \<open>Standard base64 (package encoding/base64)\<close>

text \<open>
  Modelled from the spec: the streaming encoder \<^verbatim>\<open>base64.NewEncoder(base64.StdEncoding, w)\<close>
  is library code outside the repository's sources. Section 4.2 of the specification
  describes it: a standard base64 encoder (standard alphabet, no line breaks) that writes
  directly to the sink, keeps only the at most two residual bytes that do not fill a group
  of three between calls, and emits padding only when it is closed.
\<close>

text \<open>
  The standard alphabet by its character codes: \<^verbatim>\<open>A\<close> to \<^verbatim>\<open>Z\<close> (65 to 90), \<^verbatim>\<open>a\<close> to \<^verbatim>\<open>z\<close>
  (97 to 122), \<^verbatim>\<open>0\<close> to \<^verbatim>\<open>9\<close> (48 to 57), \<^verbatim>\<open>+\<close> (43) and \<^verbatim>\<open>/\<close> (47); the padding
  character is \<^verbatim>\<open>=\<close> (61).
\<close>

definition encodeStd :: "byte list" where
  "encodeStd = map of_nat ([65..<91] @ [97..<123] @ [48..<58] @ [43, 47])"

definition StdPadding :: byte where
  "StdPadding = 61"

text \<open>A group of three bytes is a 24-bit value, written as four 6-bit digits.\<close>

definition Encode3 :: "byte \<Rightarrow> byte \<Rightarrow> byte \<Rightarrow> byte list" where
  "Encode3 a b c =
     (let val = unat a * 65536 + unat b * 256 + unat c
      in [encodeStd ! (val div 262144 mod 64), encodeStd ! (val div 4096 mod 64),
          encodeStd ! (val div 64 mod 64), encodeStd ! (val mod 64)])"

fun encodeGroups :: "byte list \<Rightarrow> byte list" where
  "encodeGroups (a # b # c # rest) = Encode3 a b c @ encodeGroups rest"
| "encodeGroups rest = []"

fun residual :: "byte list \<Rightarrow> byte list" where
  "residual (a # b # c # rest) = residual rest"
| "residual rest = rest"

text \<open>The last, incomplete group: its missing bytes count as zero and are padded.\<close>

fun encodeTail :: "byte list \<Rightarrow> byte list" where
  "encodeTail [] = []"
| "encodeTail [a] = take 2 (Encode3 a 0 0) @ [StdPadding, StdPadding]"
| "encodeTail (a # b # rest) = take 3 (Encode3 a b 0) @ [StdPadding]"

text \<open>\<^verbatim>\<open>base64.StdEncoding.EncodeToString\<close>: the encoding of a whole byte string.\<close>

definition EncodeToString :: "byte list \<Rightarrow> byte list" where
  "EncodeToString src = encodeGroups src @ encodeTail (residual src)"

text \<open>
  The decoder: the position of a character in the standard alphabet, a group of four
  characters, and \<^verbatim>\<open>base64.StdEncoding.DecodeString\<close> of a text without line breaks.
  Padding is accepted in the last group only.
\<close>

definition decodeMap :: "byte \<Rightarrow> nat option" where
  "decodeMap ch =
     (let n = unat ch
      in if 65 \<le> n \<and> n \<le> 90 then Some (n - 65)
         else if 97 \<le> n \<and> n \<le> 122 then Some (n - 71)
         else if 48 \<le> n \<and> n \<le> 57 then Some (n + 4)
         else if n = 43 then Some 62
         else if n = 47 then Some 63
         else None)"

definition Decode4 :: "byte \<Rightarrow> byte \<Rightarrow> byte \<Rightarrow> byte \<Rightarrow> byte list option" where
  "Decode4 c0 c1 c2 c3 =
     (case (decodeMap c0, decodeMap c1, decodeMap c2, decodeMap c3) of
        (Some d0, Some d1, Some d2, Some d3) \<Rightarrow>
          (let val = d0 * 262144 + d1 * 4096 + d2 * 64 + d3
           in Some [of_nat (val div 65536), of_nat (val div 256 mod 256), of_nat (val mod 256)])
      | _ \<Rightarrow> None)"

fun DecodeString :: "byte list \<Rightarrow> byte list option" where
  "DecodeString [] = Some []"
| "DecodeString [c0, c1, c2, c3] =
     (if c2 = StdPadding \<and> c3 = StdPadding then
        map_option (take 1) (Decode4 c0 c1 (encodeStd ! 0) (encodeStd ! 0))
      else if c3 = StdPadding then
        map_option (take 2) (Decode4 c0 c1 c2 (encodeStd ! 0))
      else Decode4 c0 c1 c2 c3)"
| "DecodeString (c0 # c1 # c2 # c3 # rest) =
     (case Decode4 c0 c1 c2 c3 of
        None \<Rightarrow> None
      | Some bs \<Rightarrow> map_option (\<lambda>tl. bs @ tl) (DecodeString rest))"
| "DecodeString rest = None"

text \<open>
  The streaming encoder: its sticky error and the bytes waiting for a complete group.
  \<^verbatim>\<open>Write\<close> encodes the complete groups of the waiting bytes followed by the new ones and
  keeps the rest; it calls the sink only when there is something to send. \<^verbatim>\<open>Close\<close>
  sends the padded last group.
\<close>

record encoder =
  enc_err :: "error option"
  enc_buf :: "byte list"

definition encoder_Write ::
  "encoder \<Rightarrow> ResponseWriter \<Rightarrow> byte list \<Rightarrow> error option \<times> encoder \<times> ResponseWriter" where
  "encoder_Write e w p =
     (case enc_err e of
        Some err \<Rightarrow> (Some err, e, w)
      | None \<Rightarrow>
          (let data = enc_buf e @ p
           in if encodeGroups data = [] then (None, e\<lparr>enc_buf := data\<rparr>, w)
              else (case rw_Write w (encodeGroups data) of
                      (Some err, w') \<Rightarrow> (Some err, e\<lparr>enc_err := Some err\<rparr>, w')
                    | (None, w') \<Rightarrow> (None, e\<lparr>enc_buf := residual data\<rparr>, w'))))"

definition encoder_Close ::
  "encoder \<Rightarrow> ResponseWriter \<Rightarrow> error option \<times> encoder \<times> ResponseWriter" where
  "encoder_Close e w =
     (if enc_err e = None \<and> enc_buf e \<noteq> [] then
        (case rw_Write w (encodeTail (enc_buf e)) of
           (err, w') \<Rightarrow> (err, e\<lparr>enc_err := err, enc_buf := []\<rparr>, w'))
      else (enc_err e, e, w))"

subsection \<open>The body writer\<close>

text \<open>
  The field \<^verbatim>\<open>bodyWriter\<close> is the response writer itself in binary mode and a
  \<^verbatim>\<open>flushingBase64Writer\<close> around it in text mode. The latter's fields \<^verbatim>\<open>w\<close> and
  \<^verbatim>\<open>flusher\<close> point to the same response writer, which the model passes along; its
  methods \<^verbatim>\<open>Write\<close> and \<^verbatim>\<open>Close\<close> hand over to the encoder. Only the base64 writer is an
  \<^verbatim>\<open>io.Closer\<close>.
\<close>

datatype bodyWriter = ResponseWriterItself | FlushingBase64Writer encoder

definition newFlushingBase64Writer :: bodyWriter where
  "newFlushingBase64Writer = FlushingBase64Writer \<lparr>enc_err = None, enc_buf = []\<rparr>"

fun bodyWriter_Write ::
  "bodyWriter \<Rightarrow> ResponseWriter \<Rightarrow> byte list \<Rightarrow> error option \<times> bodyWriter \<times> ResponseWriter" where
  "bodyWriter_Write ResponseWriterItself w p =
     (case rw_Write w p of (err, w') \<Rightarrow> (err, ResponseWriterItself, w'))"
| "bodyWriter_Write (FlushingBase64Writer e) w p =
     (case encoder_Write e w p of (err, e', w') \<Rightarrow> (err, FlushingBase64Writer e', w'))"

fun bodyWriter_Close ::
  "bodyWriter \<Rightarrow> ResponseWriter \<Rightarrow> error option \<times> bodyWriter \<times> ResponseWriter" where
  "bodyWriter_Close ResponseWriterItself w = (None, ResponseWriterItself, w)"
| "bodyWriter_Close (FlushingBase64Writer e) w =
     (case encoder_Close e w of (err, e', w') \<Rightarrow> (err, FlushingBase64Writer e', w'))"

definition flushingBase64Writer_Flush :: "ResponseWriter \<Rightarrow> ResponseWriter" where
  "flushingBase64Writer_Flush w = (if rw_flusher w then rw_Flush w else w)"

text \<open>
  \<^verbatim>\<open>io.CopyN(dst, src, n)\<close> from a \<^verbatim>\<open>bytes.Buffer\<close> whose unread bytes are \<open>src\<close>: it
  hands the first \<open>n\<close> bytes (all of them when there are fewer) to the writer, without a
  call when there is nothing to hand over, and reports \<^verbatim>\<open>io.EOF\<close> when the buffer held
  fewer than \<open>n\<close> bytes. The buffer keeps what lies behind the bytes read.
\<close>

definition CopyN ::
  "bodyWriter \<Rightarrow> ResponseWriter \<Rightarrow> byte list \<Rightarrow> nat \<Rightarrow> error option \<times> bodyWriter \<times> ResponseWriter" where
  "CopyN dst w src n =
     (case (if take n src = [] then (None, dst, w) else bodyWriter_Write dst w (take n src)) of
        (Some err, dst', w') \<Rightarrow> (Some err, dst', w')
      | (None, dst', w') \<Rightarrow> (if length src < n then Some EOF else None, dst', w'))"

subsection \<open>StreamingResponseWriter\<close>

text \<open>The struct; its field \<^verbatim>\<open>w\<close> is called \<open>rw\<close> here, \<open>flusher\<close> tells whether it is set.\<close>

record StreamingResponseWriter =
  rw :: ResponseWriter
  isTextResponse :: bool
  headers :: Header
  trailers :: Header
  capturedStatusCode :: int
  headersWritten :: bool
  bodyWriter :: bodyWriter
  flusher :: bool
  frameBuffer :: "byte list"

definition NewStreamingResponseWriter :: "ResponseWriter \<Rightarrow> bool \<Rightarrow> StreamingResponseWriter" where
  "NewStreamingResponseWriter w isText =
     \<lparr>rw = w,
      isTextResponse = isText,
      headers = Map.empty,
      trailers = Map.empty,
      capturedStatusCode = StatusOK,
      headersWritten = False,
      bodyWriter = (if isText then newFlushingBase64Writer else ResponseWriterItself),
      flusher = rw_flusher w,
      frameBuffer = []\<rparr>"

definition WriteHeader :: "StreamingResponseWriter \<Rightarrow> int \<Rightarrow> StreamingResponseWriter" where
  "WriteHeader s statusCode =
     (if headersWritten s then s else s\<lparr>capturedStatusCode := statusCode\<rparr>)"

text \<open>
  The body of the inner loop of \<^verbatim>\<open>writeHeaders\<close>: a field that a trailer announcement
  names moves from the headers to the trailers when the headers hold it.
\<close>

definition promote :: "Header \<times> Header \<Rightarrow> string \<Rightarrow> Header \<times> Header" where
  "promote ht key =
     (let canonicalKey = CanonicalHeaderKey (TrimSpace key)
      in case fst ht canonicalKey of
           Some val \<Rightarrow> ((fst ht)(canonicalKey := None), (snd ht)(canonicalKey \<mapsto> val))
         | None \<Rightarrow> ht)"

definition promoteAll :: "Header \<times> Header \<Rightarrow> string list \<Rightarrow> Header \<times> Header" where
  "promoteAll ht trailerValues =
     foldl (\<lambda>acc trailer. foldl promote acc (Split trailer CHR '','')) ht trailerValues"

definition writeHeaders :: "StreamingResponseWriter \<Rightarrow> StreamingResponseWriter" where
  "writeHeaders s =
     (if headersWritten s then s
      else
        (let ht = (case headers s ''Trailer'' of
                     Some trailerValues \<Rightarrow> promoteAll (headers s, trailers s) trailerValues
                   | None \<Rightarrow> (headers s, trailers s));
             hs = (fst ht)(''Trailer'' := None);
             forwarded = (\<lambda>k. if k \<noteq> ''Content-Type'' \<and> k \<noteq> ''Content-Length'' then hs k else None);
             finalContentType =
               (if isTextResponse s then ContentTypeGRPCWebTextProto else ContentTypeGRPCWebProto);
             h1 = rw_header (rw s) ++ forwarded;
             h2 = Header_Set h1 ''Content-Type'' finalContentType;
             h3 = Header_Add h2 ''Access-Control-Expose-Headers'' ''grpc-status, grpc-message''
         in s\<lparr>headersWritten := True,
               headers := hs,
               trailers := snd ht,
               rw := rw_WriteHeader ((rw s)\<lparr>rw_header := h3\<rparr>) StatusOK\<rparr>))"

text \<open>
  The loop of \<^verbatim>\<open>Write\<close> over the frame buffer. The comparison is the source's, on
  \<^verbatim>\<open>uint32\<close>: the buffer length is truncated to 32 bits and \<open>5 + length\<close> wraps around.
  The source's variable \<^verbatim>\<open>length\<close> is \<open>len\<close>. The result is the error that ended the
  loop, if any, and the buffer, body writer and response writer it leaves.
\<close>

function emitFrames ::
  "byte list \<Rightarrow> bodyWriter \<Rightarrow> ResponseWriter
     \<Rightarrow> error option \<times> byte list \<times> bodyWriter \<times> ResponseWriter" where
  "emitFrames buf bw w =
     (if length buf \<ge> 5 then
        (let grpcHeader = take 5 buf;
             len = Uint32 (take 4 (drop 1 grpcHeader))
         in if (of_nat (length buf) :: uint32) < 5 + len then (None, buf, bw, w)
            else
              (case bodyWriter_Write bw w (grpcDataFrame # PutUint32 len) of
                 (Some err, bw1, w1) \<Rightarrow> (Some err, drop 5 buf, bw1, w1)
               | (None, bw1, w1) \<Rightarrow>
                   (case CopyN bw1 w1 (drop 5 buf) (unat len) of
                      (Some err, bw2, w2) \<Rightarrow> (Some err, drop (unat len) (drop 5 buf), bw2, w2)
                    | (None, bw2, w2) \<Rightarrow> emitFrames (drop (unat len) (drop 5 buf)) bw2 w2)))
      else (None, buf, bw, w))"
  by pat_completeness auto
termination
  by (relation "measure (\<lambda>(buf, bw, w). length buf)") auto

declare emitFrames.simps [simp del]

definition Write ::
  "StreamingResponseWriter \<Rightarrow> byte list \<Rightarrow> (error + nat) \<times> StreamingResponseWriter" where
  "Write s p =
     (let s1 = (if \<not> headersWritten s then writeHeaders s else s)
      in case emitFrames (frameBuffer s1 @ p) (bodyWriter s1) (rw s1) of
           (Some err, buf, bw, w) \<Rightarrow> (Inl err, s1\<lparr>frameBuffer := buf, bodyWriter := bw, rw := w\<rparr>)
         | (None, buf, bw, w) \<Rightarrow>
             (Inr (length p), s1\<lparr>frameBuffer := buf, bodyWriter := bw, rw := w\<rparr>))"

definition Flush :: "StreamingResponseWriter \<Rightarrow> StreamingResponseWriter" where
  "Flush s =
     (let s1 = (if \<not> headersWritten s then writeHeaders s else s)
      in if flusher s1 then s1\<lparr>rw := rw_Flush (rw s1)\<rparr> else s1)"

text \<open>
  The first part of \<^verbatim>\<open>Finish\<close> after header finalization: the two statements that give
  the trailers a status and, for a status other than 200, a message when they have none.
\<close>

definition synthesizeTrailers :: "StreamingResponseWriter \<Rightarrow> StreamingResponseWriter" where
  "synthesizeTrailers s =
     (let t1 = (if Header_Get (trailers s) ''Grpc-Status'' = [] then
                  Header_Set (trailers s) ''Grpc-Status''
                    (Itoa (int_of_Code (httpStatusToGrpcCode (capturedStatusCode s))))
                else trailers s);
          t2 = (if Header_Get t1 ''Grpc-Message'' = [] \<and> capturedStatusCode s \<noteq> StatusOK then
                  Header_Set t1 ''Grpc-Message'' (StatusText (capturedStatusCode s))
                else t1)
      in s\<lparr>trailers := t2\<rparr>)"

text \<open>
  \<^verbatim>\<open>Finish\<close>. The serialisation of the trailers, \<^verbatim>\<open>http.Header.Write\<close> into a buffer, is
  library code and a parameter \<open>headerWrite\<close> here: it gives the bytes or an error.
\<close>

definition Finish ::
  "(Header \<Rightarrow> error + byte list) \<Rightarrow> StreamingResponseWriter
     \<Rightarrow> error option \<times> StreamingResponseWriter" where
  "Finish headerWrite s0 =
     (let s1 = synthesizeTrailers (if \<not> headersWritten s0 then writeHeaders s0 else s0)
      in case headerWrite (trailers s1) of
           Inl err \<Rightarrow> (Some (Wrapped ''failed to serialize trailers'' err), s1)
         | Inr trailerBuf \<Rightarrow>
             (case bodyWriter_Write (bodyWriter s1) (rw s1)
                     (grpcTrailerFrame # PutUint32 (of_nat (length trailerBuf))) of
                (Some err, bw1, w1) \<Rightarrow>
                  (Some (Wrapped ''failed to write trailer frame header'' err),
                   s1\<lparr>bodyWriter := bw1, rw := w1\<rparr>)
              | (None, bw1, w1) \<Rightarrow>
                  (case bodyWriter_Write bw1 w1 trailerBuf of
                     (Some err, bw2, w2) \<Rightarrow>
                       (Some (Wrapped ''failed to write trailer payload'' err),
                        s1\<lparr>bodyWriter := bw2, rw := w2\<rparr>)
                   | (None, bw2, w2) \<Rightarrow>
                       (case bodyWriter_Close bw2 w2 of
                          (Some err, bw3, w3) \<Rightarrow>
                            (Some (Wrapped ''failed closing body writer'' err),
                             s1\<lparr>bodyWriter := bw3, rw := w3\<rparr>)
                        | (None, bw3, w3) \<Rightarrow>
                            (None, Flush (s1\<lparr>bodyWriter := bw3, rw := w3\<rparr>))))))"

subsection \<open>FrameReader\<close>

text \<open>
  The source of a \<^verbatim>\<open>FrameReader\<close> is an \<^verbatim>\<open>io.Reader\<close>: the request body, behind a base64
  decoder for a text request. The model holds the bytes it will still deliver and how it
  ends after them: with \<^verbatim>\<open>io.EOF\<close> (\<open>None\<close>) or with a failure of the transport.
\<close>

record Reader =
  rd_data :: "byte list"
  rd_fail :: "string option"

definition rd_end :: "Reader \<Rightarrow> error" where
  "rd_end r = (case rd_fail r of None \<Rightarrow> EOF | Some msg \<Rightarrow> IOError msg)"

text \<open>
  \<^verbatim>\<open>io.ReadFull(r, buf)\<close> for a buffer of \<open>n\<close> bytes: the error of the source when it ends
  early, where an \<^verbatim>\<open>io.EOF\<close> after at least one byte becomes \<^verbatim>\<open>io.ErrUnexpectedEOF\<close>.
\<close>

definition ReadFull :: "Reader \<Rightarrow> nat \<Rightarrow> (error + byte list) \<times> Reader" where
  "ReadFull r n =
     (if n \<le> length (rd_data r) then (Inr (take n (rd_data r)), r\<lparr>rd_data := drop n (rd_data r)\<rparr>)
      else
        (Inl (if rd_data r \<noteq> [] \<and> rd_end r = EOF then ErrUnexpectedEOF else rd_end r),
         r\<lparr>rd_data := []\<rparr>))"

text \<open>
  \<^verbatim>\<open>io.CopyN(&buffer, r, n)\<close> into a \<^verbatim>\<open>bytes.Buffer\<close>: the bytes copied, and the error of
  the source (\<^verbatim>\<open>io.EOF\<close> at its clean end) when it had fewer than \<open>n\<close>.
\<close>

definition CopyN_from :: "Reader \<Rightarrow> nat \<Rightarrow> error option \<times> byte list \<times> Reader" where
  "CopyN_from r n =
     (if n \<le> length (rd_data r) then (None, take n (rd_data r), r\<lparr>rd_data := drop n (rd_data r)\<rparr>)
      else (Some (rd_end r), rd_data r, r\<lparr>rd_data := []\<rparr>))"

text \<open>
  \<^verbatim>\<open>bytes.Buffer.Read(p)\<close> for a slice of \<open>n\<close> bytes: the bytes read and the buffer left.
  An empty buffer gives \<^verbatim>\<open>io.EOF\<close> unless \<open>n\<close> is zero.
\<close>

definition Buffer_Read :: "byte list \<Rightarrow> nat \<Rightarrow> (error + byte list) \<times> byte list" where
  "Buffer_Read buf n =
     (if buf = [] then (if n = 0 then Inr [] else Inl EOF, [])
      else (Inr (take n buf), drop n buf))"

record FrameReader =
  source :: Reader
  buffer :: "byte list"

text \<open>
  \<^verbatim>\<open>Read(p)\<close> for a slice of \<open>n\<close> bytes: \<open>Inr\<close> the bytes put into \<open>p\<close>, or \<open>Inl\<close> the error
  (with which Go returns zero bytes), and the reader after the call.
\<close>

definition Read :: "FrameReader \<Rightarrow> nat \<Rightarrow> (error + byte list) \<times> FrameReader" where
  "Read fr n =
     (if length (buffer fr) > 0 then
        (case Buffer_Read (buffer fr) n of (res, buf) \<Rightarrow> (res, fr\<lparr>buffer := buf\<rparr>))
      else
        (case ReadFull (source fr) 5 of
           (Inl err, src) \<Rightarrow> (Inl err, fr\<lparr>source := src\<rparr>)
         | (Inr frameHeader, src) \<Rightarrow>
             (if frameHeader ! 0 \<noteq> grpcDataFrame then (Inl EOF, fr\<lparr>source := src\<rparr>)
              else
                (let len = Uint32 (drop 1 frameHeader);
                     grpcHeader = 0 # PutUint32 len;
                     buf = buffer fr @ grpcHeader
                 in if len > 0 then
                      (case CopyN_from src (unat len) of
                         (Some err, copied, src') \<Rightarrow>
                           (Inl (Wrapped ''error copying frame data'' err),
                            fr\<lparr>source := src', buffer := buf @ copied\<rparr>)
                       | (None, copied, src') \<Rightarrow>
                           (case Buffer_Read (buf @ copied) n of
                              (res, buf') \<Rightarrow> (res, fr\<lparr>source := src', buffer := buf'\<rparr>)))
                    else
                      (case Buffer_Read buf n of
                         (res, buf') \<Rightarrow> (res, fr\<lparr>source := src, buffer := buf'\<rparr>))))))"

subsection \<open>Frames as the tests build and read them\<close>

text \<open>
  The helpers of \<^verbatim>\<open>grpcweb_test.go\<close>: \<^verbatim>\<open>writeGrpcFrame\<close> gives the bytes of a native frame
  (compression flag 0, the length as \<^verbatim>\<open>uint32(len(payload))\<close>, the payload), and
  \<^verbatim>\<open>readGrpcWebFrame\<close> reads one web frame from a byte string and also gives the bytes
  behind it.
\<close>

definition writeGrpcFrame :: "byte list \<Rightarrow> byte list" where
  "writeGrpcFrame payload = 0 # PutUint32 (of_nat (length payload)) @ payload"

definition readGrpcWebFrame :: "byte list \<Rightarrow> error + (byte \<times> byte list \<times> byte list)" where
  "readGrpcWebFrame r =
     (if length r < 5 then Inl (if r = [] then EOF else ErrUnexpectedEOF)
      else
        (let header = take 5 r;
             frameType = header ! 0;
             len = Uint32 (drop 1 header);
             rest = drop 5 r
         in if len = 0 then Inr (frameType, [], rest)
            else if length rest < unat len then
              Inl (if rest = [] then EOF else ErrUnexpectedEOF)
            else Inr (frameType, take (unat len) rest, drop (unat len) rest)))"

subsection \<open>Specification-level views used in the proofs\<close>

text \<open>
  A body writer in working order: a base64 encoder without a recorded error that holds
  fewer than three waiting bytes.
\<close>

fun bw_ok :: "bodyWriter \<Rightarrow> bool" where
  "bw_ok ResponseWriterItself = True"
| "bw_ok (FlushingBase64Writer e) = (enc_err e = None \<and> length (enc_buf e) < 3)"

text \<open>
  What a body writer in working order sends to a response writer that accepts the bytes
  \<open>p\<close>, and the body writer afterwards.
\<close>

fun bw_out :: "bodyWriter \<Rightarrow> byte list \<Rightarrow> byte list" where
  "bw_out ResponseWriterItself p = p"
| "bw_out (FlushingBase64Writer e) p = encodeGroups (enc_buf e @ p)"

fun bw_after :: "bodyWriter \<Rightarrow> byte list \<Rightarrow> bodyWriter" where
  "bw_after ResponseWriterItself p = ResponseWriterItself"
| "bw_after (FlushingBase64Writer e) p = FlushingBase64Writer (e\<lparr>enc_buf := residual (enc_buf e @ p)\<rparr>)"

text \<open>
  The loop of \<^verbatim>\<open>Write\<close> seen from the buffer alone: the error that ends it, the buffer it
  leaves and the bytes it hands to the body writer, when every write is accepted.
\<close>

function framesOf :: "byte list \<Rightarrow> error option \<times> byte list \<times> byte list" where
  "framesOf buf =
     (if length buf \<ge> 5 then
        (let len = Uint32 (take 4 (drop 1 (take 5 buf)));
             rest = drop 5 buf;
             frame = grpcDataFrame # PutUint32 len @ take (unat len) rest
         in if (of_nat (length buf) :: uint32) < 5 + len then (None, buf, [])
            else if length rest < unat len then (Some EOF, drop (unat len) rest, frame)
            else (case framesOf (drop (unat len) rest) of
                    (err, buf', out) \<Rightarrow> (err, buf', frame @ out)))
      else (None, buf, []))"
  by pat_completeness auto
termination
  by (relation "measure length") auto

declare framesOf.simps [simp del]

text \<open>A run of \<^verbatim>\<open>Write\<close> calls, whatever each of them returns.\<close>

definition WriteAll :: "StreamingResponseWriter \<Rightarrow> byte list list \<Rightarrow> StreamingResponseWriter" where
  "WriteAll s ps = foldl (\<lambda>s p. snd (Write s p)) s ps"


text \<open>
  The outcome of header finalization on the transport: \<open>w'\<close> has received one more call
  of \<^verbatim>\<open>WriteHeader\<close> than the response writer of \<open>s\<close>, with status 200; its Content-Type
  is the one fixed value of the mode of \<open>s\<close>; and the last value of its
  Access-Control-Expose-Headers field names the two status fields.
\<close>

definition finalizedFrom :: "StreamingResponseWriter \<Rightarrow> ResponseWriter \<Rightarrow> bool" where
  "finalizedFrom s w' =
     (rw_status w' = rw_status (rw s) @ [200] \<and>
      rw_header w' ''Content-Type'' =
        Some [if isTextResponse s then ''application/grpc-web-text+proto''
              else ''application/grpc-web+proto''] \<and>
      (\<exists>vs. rw_header w' ''Access-Control-Expose-Headers'' =
              Some (vs @ [''grpc-status, grpc-message''])))"

text \<open>
  The relation between a text-mode writer \<open>t\<close> and a binary-mode writer \<open>b\<close> that went
  through the same calls: they agree on everything but the mode and the transport, the
  transport of \<open>t\<close> holds the complete base64 groups of what the transport of \<open>b\<close> holds, and
  the encoder of \<open>t\<close> holds the bytes that do not fill a group yet.
\<close>

definition mirrors :: "StreamingResponseWriter \<Rightarrow> StreamingResponseWriter \<Rightarrow> bool" where
  "mirrors t b =
     (frameBuffer t = frameBuffer b \<and> headersWritten t = headersWritten b \<and>
      headers t = headers b \<and> trailers t = trailers b \<and>
      capturedStatusCode t = capturedStatusCode b \<and>
      \<not> rw_broken (rw t) \<and> \<not> rw_broken (rw b) \<and>
      bodyWriter b = ResponseWriterItself \<and>
      bodyWriter t =
        FlushingBase64Writer \<lparr>enc_err = None, enc_buf = residual (rw_body (rw b))\<rparr> \<and>
      rw_body (rw t) = encodeGroups (rw_body (rw b)))"

subsection \<open>Example requests, writers and payloads\<close>

text \<open>A text request by its subtype alone: the combined content type and a neutral Accept.\<close>

definition textProtoRequest :: Request where
  "textProtoRequest =
     \<lparr>Method = ''POST'',
      Header = [''Content-Type'' \<mapsto> [''application/grpc-web-text+proto''],
                ''Accept'' \<mapsto> [''*/*'']]\<rparr>"


text \<open>A response writer nothing was written to yet, as \<^verbatim>\<open>httptest.NewRecorder()\<close> gives it.\<close>

definition NewRecorder :: ResponseWriter where
  "NewRecorder =
     \<lparr>rw_header = Map.empty, rw_status = [], rw_body = [], rw_flushes = 0,
      rw_broken = False, rw_flusher = True\<rparr>"

text \<open>
  The largest payload a frame header can declare, \<open>2\<^sup>3\<^sup>2 - 1\<close> bytes, with its native frame
  header; and a write of a complete small frame followed by \<open>2\<^sup>3\<^sup>2\<close> more bytes.
\<close>

definition maxPayload :: "byte list" where
  "maxPayload = replicate 4294967295 1"

definition maxHeader :: "byte list" where
  "maxHeader = [0, 255, 255, 255, 255]"

definition hugeWrite :: "byte list" where
  "hugeWrite = [0, 0, 0, 0, 10] @ replicate 4294967296 0"


text \<open>
  A serialiser for the witnesses: the lines \<^verbatim>\<open>Name: value\<close> of the two status fields, in
  the order of their names, as \<^verbatim>\<open>http.Header.Write\<close> gives them for a trailer set that
  holds only these.
\<close>

definition crlf :: string where
  "crlf = [CHR 0x0D, CHR 0x0A]"

definition statusLines :: "Header \<Rightarrow> error + byte list" where
  "statusLines h =
     Inr (map (\<lambda>c. of_nat (of_char c))
            (concat (map (\<lambda>k. case h k of
                                 None \<Rightarrow> []
                               | Some vs \<Rightarrow> concat (map (\<lambda>v. k @ '': '' @ v @ crlf) vs))
                      [''Grpc-Message'', ''Grpc-Status''])))"

text \<open>A truncated trailer frame on the request path: it declares ten payload bytes and
  ends after three.\<close>

definition truncatedTrailerFrame :: FrameReader where
  "truncatedTrailerFrame =
     \<lparr>source = \<lparr>rd_data = [0x80, 0, 0, 0, 10, 1, 2, 3], rd_fail = None\<rparr>, buffer = []\<rparr>"

text \<open>A truncated data frame: it declares two payload bytes and ends after one.\<close>

definition truncatedDataFrame :: FrameReader where
  "truncatedDataFrame =
     \<lparr>source = \<lparr>rd_data = [0, 0, 0, 0, 2, 7], rd_fail = None\<rparr>, buffer = []\<rparr>"

text \<open>
  Writers for the trailer synthesis: a fresh binary-mode writer after \<^verbatim>\<open>WriteHeader(404)\<close>,
  one after \<^verbatim>\<open>WriteHeader(499)\<close> (a status code without a reason phrase in net/http), and
  one with status 200 whose buffered headers announce and carry an explicit Grpc-Status.
\<close>

definition notFoundWriter :: StreamingResponseWriter where
  "notFoundWriter = WriteHeader (NewStreamingResponseWriter NewRecorder False) 404"

definition clientClosedWriter :: StreamingResponseWriter where
  "clientClosedWriter = WriteHeader (NewStreamingResponseWriter NewRecorder False) 499"

definition explicitStatusWriter :: StreamingResponseWriter where
  "explicitStatusWriter =
     (NewStreamingResponseWriter NewRecorder False)
       \<lparr>headers := [''Trailer'' \<mapsto> [''Grpc-Status''], ''Grpc-Status'' \<mapsto> [''13'']]\<rparr>"

text \<open>A native frame with the payload 01 02 03, written in two chunks.\<close>

definition chunkedFrame :: "byte list list" where
  "chunkedFrame = [[0, 0, 0, 0, 3, 1], [2, 3]]"

section \<open>Properties\<close>

subsection \<open>Canonical header keys\<close>

lemma CanonicalHeaderKey_Content_Type: "CanonicalHeaderKey ''Content-Type'' = ''Content-Type''"
  by code_simp

lemma CanonicalHeaderKey_Accept: "CanonicalHeaderKey ''Accept'' = ''Accept''"
  by code_simp

subsection \<open>Status code mapping\<close>

text \<open>
  Claim C5. \<^const>\<open>httpStatusToGrpcCode\<close> is a function on all integers: it sends 200 to
  \<^const>\<open>OK\<close>, 400 to \<^const>\<open>Internal\<close>, 401 to \<^const>\<open>Unauthenticated\<close>, 403 to
  \<^const>\<open>PermissionDenied\<close>, 404 to \<^const>\<open>Unimplemented\<close>, each of 429, 502, 503 and 504
  to \<^const>\<open>Unavailable\<close>, and every other status code to \<^const>\<open>Unknown\<close>.
\<close>

theorem httpStatusToGrpcCode_table:
  "httpStatusToGrpcCode 200 = OK \<and>
   httpStatusToGrpcCode 400 = Internal \<and>
   httpStatusToGrpcCode 401 = Unauthenticated \<and>
   httpStatusToGrpcCode 403 = PermissionDenied \<and>
   httpStatusToGrpcCode 404 = Unimplemented \<and>
   httpStatusToGrpcCode 429 = Unavailable \<and>
   httpStatusToGrpcCode 502 = Unavailable \<and>
   httpStatusToGrpcCode 503 = Unavailable \<and>
   httpStatusToGrpcCode 504 = Unavailable \<and>
   (c \<notin> {200, 400, 401, 403, 404, 429, 502, 503, 504} \<longrightarrow> httpStatusToGrpcCode c = Unknown)"
  by (simp add: httpStatusToGrpcCode_def StatusOK_def StatusBadRequest_def
      StatusUnauthorized_def StatusForbidden_def StatusNotFound_def StatusTooManyRequests_def
      StatusBadGateway_def StatusServiceUnavailable_def StatusGatewayTimeout_def)

theorem httpStatusToGrpcCode_table_witness:
  "(500::int) \<notin> {200, 400, 401, 403, 404, 429, 502, 503, 504} \<and>
   httpStatusToGrpcCode 500 = Unknown"
  using httpStatusToGrpcCode_table [of 500] by simp

subsection \<open>Negotiation\<close>

text \<open>
  Claim C10. A request whose Content-Type is exactly \<^verbatim>\<open>application/grpc-web-text+proto\<close>
  and whose Accept header does not contain \<^verbatim>\<open>application/grpc-web-text\<close> is not a text
  request: the content type does not end in \<^verbatim>\<open>-text\<close>.
\<close>

theorem IsTextRequest_text_proto:
  assumes "Header_Get (Header r) ''Content-Type'' = ContentTypeGRPCWebTextProto"
    and "\<not> Contains (Header_Get (Header r) ''Accept'') ContentTypeGRPCWebText"
  shows "\<not> IsTextRequest r"
proof -
  have "\<not> HasSuffix ContentTypeGRPCWebTextProto ''-text''"
    by code_simp
  with assms show ?thesis
    by (simp add: IsTextRequest_def)
qed

theorem IsTextRequest_text_proto_witness:
  "Header_Get (Header textProtoRequest) ''Content-Type'' = ContentTypeGRPCWebTextProto \<and>
   \<not> Contains (Header_Get (Header textProtoRequest) ''Accept'') ContentTypeGRPCWebText \<and>
   \<not> IsTextRequest textProtoRequest"
proof -
  have ct: "Header_Get (Header textProtoRequest) ''Content-Type'' = ContentTypeGRPCWebTextProto"
    by (simp add: Header_Get_def textProtoRequest_def CanonicalHeaderKey_Content_Type
        ContentTypeGRPCWebTextProto_def)
  have "Header_Get (Header textProtoRequest) ''Accept'' = ''*/*''"
    by (simp add: Header_Get_def textProtoRequest_def CanonicalHeaderKey_Accept)
  moreover have "\<not> Contains ''*/*'' ContentTypeGRPCWebText"
    by code_simp
  ultimately have ac:
    "\<not> Contains (Header_Get (Header textProtoRequest) ''Accept'') ContentTypeGRPCWebText"
    by simp
  from IsTextRequest_text_proto [OF ct ac] ct ac show ?thesis by simp
qed

subsection \<open>Big-endian lengths\<close>

lemma length_PutUint32 [simp]: "length (PutUint32 v) = 4"
  by (simp add: PutUint32_def)

lemma Uint32_PutUint32 [simp]: "Uint32 (PutUint32 v) = v"
  unfolding Uint32_def PutUint32_def
proof (simp, rule bit_word_eqI)
  fix n :: nat
  assume n: "n < LENGTH(32)"
  consider "n < 8" | "8 \<le> n" "n < 16" | "16 \<le> n" "n < 24" | "24 \<le> n" "n < 32"
    using n by fastforce
  then show "bit (ucast (ucast v :: byte) OR push_bit 8 (ucast (ucast (drop_bit 8 v) :: byte)) OR
               push_bit 16 (ucast (ucast (drop_bit 16 v) :: byte)) OR
               push_bit 24 (ucast (ucast (drop_bit 24 v) :: byte)) :: uint32) n = bit v n"
    by cases (auto simp add: bit_simps)
qed

subsection \<open>The body writer on a sink that accepts every write\<close>

lemma length_residual: "length (residual xs) < 3"
  by (induction xs rule: residual.induct) auto

lemma residual_short: "length xs < 3 \<Longrightarrow> residual xs = xs"
  by (induction xs rule: residual.induct) auto

lemma encodeGroups_short: "length xs < 3 \<Longrightarrow> encodeGroups xs = []"
  by (induction xs rule: encodeGroups.induct) auto

lemma encodeGroups_Nil_residual: "encodeGroups xs = [] \<Longrightarrow> residual xs = xs"
  by (induction xs rule: encodeGroups.induct) (auto simp: Encode3_def Let_def)

lemma encodeGroups_append:
  "encodeGroups (xs @ ys) = encodeGroups xs @ encodeGroups (residual xs @ ys)"
  by (induction xs rule: encodeGroups.induct) auto

lemma residual_append: "residual (xs @ ys) = residual (residual xs @ ys)"
  by (induction xs rule: residual.induct) auto

lemma encoder_Write_ok:
  assumes "\<not> rw_broken w" "enc_err e = None"
  shows "encoder_Write e w p =
           (None, e\<lparr>enc_buf := residual (enc_buf e @ p)\<rparr>,
            w\<lparr>rw_body := rw_body w @ encodeGroups (enc_buf e @ p)\<rparr>)"
  using assms by (simp add: encoder_Write_def rw_Write_def Let_def encodeGroups_Nil_residual)

lemma bodyWriter_Write_ok:
  assumes "\<not> rw_broken w" "bw_ok bw"
  shows "bodyWriter_Write bw w p = (None, bw_after bw p, w\<lparr>rw_body := rw_body w @ bw_out bw p\<rparr>)"
  using assms by (cases bw) (simp_all add: rw_Write_def encoder_Write_ok)

lemma bw_ok_after: "bw_ok bw \<Longrightarrow> bw_ok (bw_after bw p)"
  by (cases bw) (simp_all add: length_residual)

lemma bw_out_Nil: "bw_ok bw \<Longrightarrow> bw_out bw [] = []"
  by (cases bw) (simp_all add: encodeGroups_short)

lemma bw_after_Nil: "bw_ok bw \<Longrightarrow> bw_after bw [] = bw"
  by (cases bw) (simp_all add: residual_short)

lemma bw_out_append: "bw_out bw (p @ q) = bw_out bw p @ bw_out (bw_after bw p) q"
  by (cases bw) (simp_all add: encodeGroups_append [of "_ @ _", simplified])

lemma bw_after_append: "bw_after bw (p @ q) = bw_after (bw_after bw p) q"
  by (cases bw) (simp_all add: residual_append [of "_ @ _", simplified])

lemma CopyN_ok:
  assumes "\<not> rw_broken w" "bw_ok bw"
  shows "CopyN bw w src n =
           (if length src < n then Some EOF else None, bw_after bw (take n src),
            w\<lparr>rw_body := rw_body w @ bw_out bw (take n src)\<rparr>)"
proof (cases "take n src = []")
  case True
  have "bw_after bw (take n src) = bw" "bw_out bw (take n src) = []"
    using assms(2) by (simp_all only: True bw_after_Nil bw_out_Nil)
  then show ?thesis
    unfolding CopyN_def by (simp only: True if_True) simp
next
  case False
  then show ?thesis
    unfolding CopyN_def by (simp only: if_False bodyWriter_Write_ok [OF assms]) simp
qed

text \<open>The loop of \<^verbatim>\<open>Write\<close> hands exactly the bytes of \<^const>\<open>framesOf\<close> to the body writer.\<close>

lemma emitFrames_framesOf:
  assumes "\<not> rw_broken w" "bw_ok bw"
  shows "emitFrames buf bw w =
           (case framesOf buf of
              (err, buf', out) \<Rightarrow>
                (err, buf', bw_after bw out, w\<lparr>rw_body := rw_body w @ bw_out bw out\<rparr>))"
  using assms
proof (induction buf arbitrary: bw w rule: framesOf.induct)
  case (1 buf)
  show ?case
  proof (cases "5 \<le> length buf")
    case False
    with 1(2,3) show ?thesis
      by (simp add: emitFrames.simps [of buf] framesOf.simps [of buf] bw_out_Nil bw_after_Nil)
  next
    case long: True
    define len where "len = Uint32 (take 4 (drop 1 (take 5 buf)))"
    define hdr where "hdr = grpcDataFrame # PutUint32 len"
    define rest where "rest = drop 5 buf"
    have E: "emitFrames buf bw w =
        (if (of_nat (length buf) :: uint32) < 5 + len then (None, buf, bw, w)
         else (case bodyWriter_Write bw w hdr of
                 (Some err, bw1, w1) \<Rightarrow> (Some err, rest, bw1, w1)
               | (None, bw1, w1) \<Rightarrow>
                   (case CopyN bw1 w1 rest (unat len) of
                      (Some err, bw2, w2) \<Rightarrow> (Some err, drop (unat len) rest, bw2, w2)
                    | (None, bw2, w2) \<Rightarrow> emitFrames (drop (unat len) rest) bw2 w2)))"
      by (subst emitFrames.simps) (simp only: long if_True Let_def len_def rest_def hdr_def)
    have F: "framesOf buf =
        (if (of_nat (length buf) :: uint32) < 5 + len then (None, buf, [])
         else if length rest < unat len then
           (Some EOF, drop (unat len) rest, hdr @ take (unat len) rest)
         else (case framesOf (drop (unat len) rest) of
                 (err, buf', out) \<Rightarrow> (err, buf', (hdr @ take (unat len) rest) @ out)))"
      by (subst framesOf.simps)
        (simp only: long if_True Let_def len_def rest_def hdr_def append_Cons)
    show ?thesis
    proof (cases "(of_nat (length buf) :: uint32) < 5 + len")
      case True
      with 1(2,3) show ?thesis
        by (simp add: E F bw_out_Nil bw_after_Nil)
    next
      case nolt: False
      let ?bw1 = "bw_after bw hdr"
      let ?w1 = "w\<lparr>rw_body := rw_body w @ bw_out bw hdr\<rparr>"
      let ?pay = "take (unat len) rest"
      let ?bw2 = "bw_after ?bw1 ?pay"
      let ?w2 = "?w1\<lparr>rw_body := rw_body ?w1 @ bw_out ?bw1 ?pay\<rparr>"
      have ok1: "\<not> rw_broken ?w1" "bw_ok ?bw1"
        using 1(2,3) by (simp_all add: bw_ok_after)
      have ok2: "\<not> rw_broken ?w2" "bw_ok ?bw2"
        using ok1 by (simp_all add: bw_ok_after)
      have w1: "bodyWriter_Write bw w hdr = (None, ?bw1, ?w1)"
        using 1(2,3) by (rule bodyWriter_Write_ok)
      have c: "CopyN ?bw1 ?w1 rest (unat len) =
                 (if length rest < unat len then Some EOF else None, ?bw2, ?w2)"
        using ok1 by (rule CopyN_ok)
      have out: "bw_out bw (hdr @ ?pay) = bw_out bw hdr @ bw_out ?bw1 ?pay"
        "bw_after bw (hdr @ ?pay) = ?bw2"
        by (simp_all only: bw_out_append bw_after_append)
      show ?thesis
      proof (cases "length rest < unat len")
        case True
        have "emitFrames buf bw w = (Some EOF, drop (unat len) rest, ?bw2, ?w2)"
          unfolding E w1 using nolt True by (simp add: c)
        moreover have "framesOf buf = (Some EOF, drop (unat len) rest, hdr @ ?pay)"
          unfolding F using nolt True by simp
        ultimately show ?thesis
          using out by simp
      next
        case False
        have e: "emitFrames buf bw w = emitFrames (drop (unat len) rest) ?bw2 ?w2"
          unfolding E w1 using nolt False by (simp add: c)
        have f: "framesOf buf =
                   (case framesOf (drop (unat len) rest) of
                      (err, buf', out) \<Rightarrow> (err, buf', (hdr @ ?pay) @ out))"
          unfolding F using nolt False by simp
        have ih: "emitFrames (drop (unat len) rest) ?bw2 ?w2 =
              (case framesOf (drop (unat len) rest) of
                 (err, buf', out) \<Rightarrow>
                   (err, buf', bw_after ?bw2 out,
                    ?w2\<lparr>rw_body := rw_body ?w2 @ bw_out ?bw2 out\<rparr>))"
          using "1.IH" [OF long len_def rest_def refl nolt False ok2] .
        show ?thesis
          unfolding e ih f
          by (simp add: bw_out_append bw_after_append out split: prod.splits)
      qed
    qed
  qed
qed

subsection \<open>What header finalization leaves alone\<close>

lemma writeHeaders_frame [simp]:
  "frameBuffer (writeHeaders s) = frameBuffer s"
  "bodyWriter (writeHeaders s) = bodyWriter s"
  "rw_body (rw (writeHeaders s)) = rw_body (rw s)"
  "rw_broken (rw (writeHeaders s)) = rw_broken (rw s)"
  "rw_flushes (rw (writeHeaders s)) = rw_flushes (rw s)"
  "rw_flusher (rw (writeHeaders s)) = rw_flusher (rw s)"
  "flusher (writeHeaders s) = flusher s"
  "isTextResponse (writeHeaders s) = isTextResponse s"
  "capturedStatusCode (writeHeaders s) = capturedStatusCode s"
  by (simp_all add: writeHeaders_def Let_def rw_WriteHeader_def split: option.split)

lemma headersWritten_writeHeaders [simp]: "headersWritten (writeHeaders s)"
  by (simp add: writeHeaders_def Let_def)

lemma writeHeaders_idem: "headersWritten s \<Longrightarrow> writeHeaders s = s"
  by (simp add: writeHeaders_def)

subsection \<open>\<^verbatim>\<open>Write\<close> on a sink that accepts every write\<close>

lemma Write_ok:
  assumes "\<not> rw_broken (rw s)" "bw_ok (bodyWriter s)"
  shows "Write s p =
     (let s1 = (if \<not> headersWritten s then writeHeaders s else s)
      in case framesOf (frameBuffer s @ p) of
           (err, buf, out) \<Rightarrow>
             ((case err of Some e \<Rightarrow> Inl e | None \<Rightarrow> Inr (length p)),
              s1\<lparr>frameBuffer := buf, bodyWriter := bw_after (bodyWriter s) out,
                 rw := (rw s1)\<lparr>rw_body := rw_body (rw s) @ bw_out (bodyWriter s) out\<rparr>\<rparr>))"
proof -
  let ?s1 = "if \<not> headersWritten s then writeHeaders s else s"
  have "\<not> rw_broken (rw ?s1)" "bw_ok (bodyWriter ?s1)"
    using assms by simp_all
  from emitFrames_framesOf [OF this, of "frameBuffer ?s1 @ p"]
  show ?thesis
    by (simp add: Write_def Let_def split: prod.splits option.splits)
qed

lemma framesOf_short: "length buf < 5 \<Longrightarrow> framesOf buf = (None, buf, [])"
  by (simp add: framesOf.simps [of buf])

lemma framesOf_writeGrpcFrame:
  assumes "length p < 2 ^ 32"
  shows "framesOf (writeGrpcFrame p) = (None, [], grpcDataFrame # PutUint32 (of_nat (length p)) @ p)"
proof -
  have u: "unat (of_nat (length p) :: uint32) = length p"
    using assms by (simp add: unat_of_nat)
  show ?thesis
    by (subst framesOf.simps) (simp add: writeGrpcFrame_def Let_def u framesOf_short)
qed

lemma readGrpcWebFrame_frame:
  assumes "length p < 2 ^ 32"
  shows "readGrpcWebFrame (t # PutUint32 (of_nat (length p)) @ p) = Inr (t, p, [])"
proof -
  have u: "unat (of_nat (length p) :: uint32) = length p"
    using assms by (simp add: unat_of_nat)
  have z: "(of_nat (length p) :: uint32) = 0 \<longleftrightarrow> p = []"
  proof
    assume "(of_nat (length p) :: uint32) = 0"
    then have "unat (of_nat (length p) :: uint32) = 0"
      by simp
    with u show "p = []"
      by simp
  qed simp
  show ?thesis
    by (simp add: readGrpcWebFrame_def Let_def u z)
qed

subsection \<open>Round-trip framing\<close>

text \<open>
  Claim C1. Take a writer with an empty frame buffer whose sink accepts writes, and a
  payload \<open>p\<close> whose length fits the four length bytes. Writing the native frame
  \<^verbatim>\<open>[0][length of p, big-endian][p]\<close> in one call hands exactly the web DATA frame
  \<^verbatim>\<open>[0x00][the same four length bytes][p]\<close> to the body writer, returns the number of
  bytes written and leaves the frame buffer empty. In binary mode these bytes are what
  the response writer receives. Reading the web frame back gives the flag 0x00 and the
  payload \<open>p\<close>, with nothing left over.
\<close>

theorem Write_native_frame_roundtrip:
  assumes "frameBuffer s = []" and "\<not> rw_broken (rw s)" and "bw_ok (bodyWriter s)"
    and "length p < 2 ^ 32"
  shows "(\<exists>bw w.
            bodyWriter_Write (bodyWriter s) (rw (if headersWritten s then s else writeHeaders s))
              (grpcDataFrame # PutUint32 (of_nat (length p)) @ p) = (None, bw, w) \<and>
            Write s (writeGrpcFrame p) =
              (Inr (length (writeGrpcFrame p)),
               (if headersWritten s then s else writeHeaders s)
                 \<lparr>frameBuffer := [], bodyWriter := bw, rw := w\<rparr>)) \<and>
         (bodyWriter s = ResponseWriterItself \<longrightarrow>
            rw_body (rw (snd (Write s (writeGrpcFrame p)))) =
              rw_body (rw s) @ grpcDataFrame # PutUint32 (of_nat (length p)) @ p) \<and>
         readGrpcWebFrame (grpcDataFrame # PutUint32 (of_nat (length p)) @ p) =
           Inr (grpcDataFrame, p, [])"
proof -
  let ?s1 = "if headersWritten s then s else writeHeaders s"
  let ?frame = "grpcDataFrame # PutUint32 (of_nat (length p)) @ p"
  have ok: "\<not> rw_broken (rw ?s1)" "bw_ok (bodyWriter ?s1)"
    using assms(2,3) by simp_all
  have bw: "bodyWriter ?s1 = bodyWriter s" "rw_body (rw ?s1) = rw_body (rw s)"
    by simp_all
  have W: "Write s (writeGrpcFrame p) =
             (Inr (length (writeGrpcFrame p)),
              ?s1\<lparr>frameBuffer := [], bodyWriter := bw_after (bodyWriter s) ?frame,
                  rw := (rw ?s1)\<lparr>rw_body := rw_body (rw s) @ bw_out (bodyWriter s) ?frame\<rparr>\<rparr>)"
    using assms(1)
    by (simp add: Write_ok [OF assms(2,3)] framesOf_writeGrpcFrame [OF assms(4)] Let_def)
  have B: "bodyWriter_Write (bodyWriter s) (rw ?s1) ?frame =
             (None, bw_after (bodyWriter s) ?frame,
              (rw ?s1)\<lparr>rw_body := rw_body (rw s) @ bw_out (bodyWriter s) ?frame\<rparr>)"
    using bodyWriter_Write_ok [OF ok, of ?frame] by (simp only: bw)
  have 1: "\<exists>bw w. bodyWriter_Write (bodyWriter s) (rw ?s1) ?frame = (None, bw, w) \<and>
            Write s (writeGrpcFrame p) =
              (Inr (length (writeGrpcFrame p)), ?s1\<lparr>frameBuffer := [], bodyWriter := bw, rw := w\<rparr>)"
    using W B by blast
  have 2: "bodyWriter s = ResponseWriterItself \<longrightarrow>
            rw_body (rw (snd (Write s (writeGrpcFrame p)))) = rw_body (rw s) @ ?frame"
    by (simp add: W)
  show ?thesis
    by (rule conjI [OF 1 conjI [OF 2 readGrpcWebFrame_frame [OF assms(4)]]])
qed

theorem Write_native_frame_roundtrip_witness:
  "frameBuffer (NewStreamingResponseWriter NewRecorder False) = [] \<and>
   \<not> rw_broken (rw (NewStreamingResponseWriter NewRecorder False)) \<and>
   bw_ok (bodyWriter (NewStreamingResponseWriter NewRecorder False)) \<and>
   length [104, 105 :: byte] < 2 ^ 32 \<and>
   rw_body (rw (snd (Write (NewStreamingResponseWriter NewRecorder False)
      (writeGrpcFrame [104, 105])))) = [0, 0, 0, 0, 2, 104, 105] \<and>
   readGrpcWebFrame [0, 0, 0, 0, 2, 104, 105] = Inr (0, [104, 105], [])"
proof -
  let ?s = "NewStreamingResponseWriter NewRecorder False"
  have h: "frameBuffer ?s = []" "\<not> rw_broken (rw ?s)" "bw_ok (bodyWriter ?s)"
    "length [104, 105 :: byte] < 2 ^ 32"
    by (simp_all add: NewStreamingResponseWriter_def NewRecorder_def)
  have b: "bodyWriter ?s = ResponseWriterItself" "rw_body (rw ?s) = []"
    by (simp_all add: NewStreamingResponseWriter_def NewRecorder_def)
  have f: "grpcDataFrame # PutUint32 (of_nat (length [104, 105 :: byte])) @ [104, 105]
             = [0, 0, 0, 0, 2, 104, 105]"
    by (simp add: grpcDataFrame_def PutUint32_def)
  from Write_native_frame_roundtrip [OF h] b show ?thesis
    unfolding f using h by (simp add: grpcDataFrame_def)
qed

subsection \<open>Frames and writes of four gigabytes\<close>

lemma length_hugeWrite: "length hugeWrite = 4294967301"
  unfolding hugeWrite_def by (simp only: length_append length_replicate) simp

lemma take_hugeWrite: "take 5 hugeWrite = [0, 0, 0, 0, 10]"
  unfolding hugeWrite_def by (simp only: take_append) simp

lemma framesOf_hugeWrite: "framesOf hugeWrite = (None, hugeWrite, [])"
  by (subst framesOf.simps)
    (simp add: length_hugeWrite take_hugeWrite Let_def Uint32_def)

lemma NewStreamingResponseWriter_ok:
  "\<not> rw_broken w \<Longrightarrow> \<not> rw_broken (rw (NewStreamingResponseWriter w isText))"
  "bw_ok (bodyWriter (NewStreamingResponseWriter w isText))"
  "frameBuffer (NewStreamingResponseWriter w isText) = []"
  "rw_body (rw (NewStreamingResponseWriter w isText)) = rw_body w"
  by (simp_all add: NewStreamingResponseWriter_def newFlushingBase64Writer_def)

lemma NewRecorder_ok: "\<not> rw_broken NewRecorder" "rw_body NewRecorder = []"
  by (simp_all add: NewRecorder_def)

text \<open>
  Claim C9 (the backpressure invariant) fails on a write of \<open>2\<^sup>3\<^sup>2 + 5\<close> bytes that starts
  with a complete frame of ten payload bytes: the buffer length is truncated to 32 bits
  before the comparison, so the loop stops at once. \<^verbatim>\<open>Write\<close> returns success, nothing
  reaches the sink and the buffer holds (more than) a complete frame.
\<close>

theorem Write_hugeWrite_keeps_complete_frame:
  "fst (Write (NewStreamingResponseWriter NewRecorder False) hugeWrite) = Inr (length hugeWrite) \<and>
   frameBuffer (snd (Write (NewStreamingResponseWriter NewRecorder False) hugeWrite)) = hugeWrite \<and>
   rw_body (rw (snd (Write (NewStreamingResponseWriter NewRecorder False) hugeWrite))) = [] \<and>
   5 \<le> length hugeWrite \<and>
   5 + unat (Uint32 (take 4 (drop 1 (take 5 hugeWrite)))) \<le> length hugeWrite"
proof -
  let ?s = "NewStreamingResponseWriter NewRecorder False"
  have ok: "\<not> rw_broken (rw ?s)" "bw_ok (bodyWriter ?s)"
    by (simp_all add: NewStreamingResponseWriter_ok NewRecorder_ok)
  have "Uint32 (take 4 (drop 1 (take 5 hugeWrite))) = 10"
    by (simp add: take_hugeWrite Uint32_def)
  then show ?thesis
    by (simp add: Write_ok [OF ok] NewStreamingResponseWriter_ok NewRecorder_ok
        framesOf_hugeWrite length_hugeWrite Let_def
        NewStreamingResponseWriter_def [of NewRecorder False, THEN arg_cong [of _ _ bodyWriter]])
qed

lemma length_maxPayload: "length maxPayload = 4294967295"
  by (simp add: maxPayload_def)

lemma maxHeader_maxPayload: "maxHeader @ maxPayload = writeGrpcFrame maxPayload"
  by (simp add: writeGrpcFrame_def length_maxPayload maxHeader_def PutUint32_def)

lemma framesOf_maxHeader: "framesOf maxHeader = (Some EOF, [], maxHeader)"
  by (subst framesOf.simps)
    (simp add: maxHeader_def Let_def Uint32_def grpcDataFrame_def PutUint32_def)

lemma framesOf_maxPayload: "\<exists>err buf out. framesOf maxPayload = (err, buf, grpcDataFrame # out)"
proof -
  obtain err buf out where r: "framesOf (drop 16843014 maxPayload) = (err, buf, out)"
    by (cases "framesOf (drop 16843014 maxPayload)")
  have "Uint32 (take 4 (drop 1 (take 5 maxPayload))) = 16843009"
    by (simp add: maxPayload_def Uint32_def)
  then have "framesOf maxPayload =
      (err, buf, grpcDataFrame # PutUint32 16843009 @ take 16843009 (drop 5 maxPayload) @ out)"
    by (subst framesOf.simps) (simp add: r length_maxPayload Let_def)
  then show ?thesis
    by blast
qed

text \<open>
  Claim C2 (partial-write reassembly) fails on the native frame whose header declares
  \<open>2\<^sup>3\<^sup>2 - 1\<close> payload bytes. Written in one call it is forwarded whole. Written as the
  five header bytes followed by the payload, the first call already forwards the header:
  \<open>5 + length\<close> wraps around to 4, the buffer is not taken to be short, the header bytes
  leave the buffer, and the call returns \<^verbatim>\<open>io.EOF\<close>. The second call then reads the
  payload as a sequence of frames, so the sink receives other bytes than in one call.
\<close>

theorem Write_maxHeader_chunk_fails:
  "maxHeader @ maxPayload = writeGrpcFrame maxPayload \<and>
   fst (Write (NewStreamingResponseWriter NewRecorder False) maxHeader) = Inl EOF \<and>
   frameBuffer (snd (Write (NewStreamingResponseWriter NewRecorder False) maxHeader)) = [] \<and>
   rw_body (rw (snd (Write (NewStreamingResponseWriter NewRecorder False) maxHeader))) = maxHeader \<and>
   fst (Write (NewStreamingResponseWriter NewRecorder False) (maxHeader @ maxPayload)) =
     Inr (length (maxHeader @ maxPayload)) \<and>
   rw_body (rw (snd (Write (NewStreamingResponseWriter NewRecorder False) (maxHeader @ maxPayload)))) =
     maxHeader @ maxPayload \<and>
   rw_body (rw (WriteAll (NewStreamingResponseWriter NewRecorder False) [maxHeader, maxPayload])) ! 5 = 0 \<and>
   (maxHeader @ maxPayload) ! 5 = 1"
proof -
  let ?s = "NewStreamingResponseWriter NewRecorder False"
  have ok: "\<not> rw_broken (rw ?s)" "bw_ok (bodyWriter ?s)"
    by (simp_all add: NewStreamingResponseWriter_ok NewRecorder_ok)
  have bw: "bodyWriter ?s = ResponseWriterItself"
    by (simp add: NewStreamingResponseWriter_def)
  have W1: "fst (Write ?s maxHeader) = Inl EOF"
    "frameBuffer (snd (Write ?s maxHeader)) = []"
    "rw_body (rw (snd (Write ?s maxHeader))) = maxHeader"
    "bodyWriter (snd (Write ?s maxHeader)) = ResponseWriterItself"
    "\<not> rw_broken (rw (snd (Write ?s maxHeader)))"
    by (simp_all add: Write_ok [OF ok] NewStreamingResponseWriter_ok NewRecorder_ok
        framesOf_maxHeader Let_def bw)
  have fw: "framesOf (writeGrpcFrame maxPayload) = (None, [], writeGrpcFrame maxPayload)"
    using framesOf_writeGrpcFrame [of maxPayload]
    by (simp add: length_maxPayload writeGrpcFrame_def grpcDataFrame_def)
  have W: "fst (Write ?s (maxHeader @ maxPayload)) = Inr (length (maxHeader @ maxPayload))"
    "rw_body (rw (snd (Write ?s (maxHeader @ maxPayload)))) = maxHeader @ maxPayload"
    unfolding maxHeader_maxPayload
    by (simp_all add: Write_ok [OF ok] NewStreamingResponseWriter_ok NewRecorder_ok fw Let_def bw)
  obtain err buf out where f: "framesOf maxPayload = (err, buf, grpcDataFrame # out)"
    using framesOf_maxPayload by blast
  have ok1: "\<not> rw_broken (rw (snd (Write ?s maxHeader)))" "bw_ok (bodyWriter (snd (Write ?s maxHeader)))"
    using W1 by simp_all
  have "rw_body (rw (WriteAll ?s [maxHeader, maxPayload])) = maxHeader @ grpcDataFrame # out"
    by (simp add: WriteAll_def Write_ok [OF ok1] W1 f Let_def)
  then have C: "rw_body (rw (WriteAll ?s [maxHeader, maxPayload])) ! 5 = 0"
    by (simp add: maxHeader_def grpcDataFrame_def)
  have P: "(maxHeader @ maxPayload) ! 5 = 1"
    by (simp add: maxHeader_def maxPayload_def)
  show ?thesis
    using maxHeader_maxPayload W1(1-3) W C P by (intro conjI)
qed

subsection \<open>Body writes leave the transport header and status alone\<close>

lemma CanonicalHeaderKey_Expose:
  "CanonicalHeaderKey ''Access-Control-Expose-Headers'' = ''Access-Control-Expose-Headers''"
  by code_simp

lemma rw_Write_meta:
  "rw_header (snd (rw_Write w p)) = rw_header w"
  "rw_status (snd (rw_Write w p)) = rw_status w"
  by (simp_all add: rw_Write_def)

lemma bodyWriter_Write_meta:
  "rw_header (snd (snd (bodyWriter_Write bw w p))) = rw_header w"
  "rw_status (snd (snd (bodyWriter_Write bw w p))) = rw_status w"
  by (cases bw; simp add: rw_Write_def encoder_Write_def Let_def split: option.split prod.split)+

lemma bodyWriter_Close_meta:
  "rw_header (snd (snd (bodyWriter_Close bw w))) = rw_header w"
  "rw_status (snd (snd (bodyWriter_Close bw w))) = rw_status w"
  by (cases bw; simp add: rw_Write_def encoder_Close_def Let_def split: option.split prod.split)+

lemma CopyN_meta:
  "rw_header (snd (snd (CopyN bw w src n))) = rw_header w"
  "rw_status (snd (snd (CopyN bw w src n))) = rw_status w"
  using bodyWriter_Write_meta [of bw w "take n src"]
  by (auto simp add: CopyN_def split: option.split prod.split)

lemma emitFrames_meta:
  "rw_header (snd (snd (snd (emitFrames buf bw w)))) = rw_header w \<and>
   rw_status (snd (snd (snd (emitFrames buf bw w)))) = rw_status w"
proof (induction buf bw w rule: emitFrames.induct)
  case (1 buf bw w)
  show ?case
  proof (cases "5 \<le> length buf")
    case False
    then show ?thesis
      by (simp add: emitFrames.simps [of buf])
  next
    case long: True
    define len where "len = Uint32 (take 4 (drop 1 (take 5 buf)))"
    define hdr where "hdr = grpcDataFrame # PutUint32 len"
    define rest where "rest = drop 5 buf"
    have E: "emitFrames buf bw w =
        (if (of_nat (length buf) :: uint32) < 5 + len then (None, buf, bw, w)
         else (case bodyWriter_Write bw w hdr of
                 (Some err, bw1, w1) \<Rightarrow> (Some err, rest, bw1, w1)
               | (None, bw1, w1) \<Rightarrow>
                   (case CopyN bw1 w1 rest (unat len) of
                      (Some err, bw2, w2) \<Rightarrow> (Some err, drop (unat len) rest, bw2, w2)
                    | (None, bw2, w2) \<Rightarrow> emitFrames (drop (unat len) rest) bw2 w2)))"
      by (subst emitFrames.simps) (simp only: long if_True Let_def len_def rest_def hdr_def)
    show ?thesis
    proof (cases "(of_nat (length buf) :: uint32) < 5 + len")
      case True
      then show ?thesis by (simp add: E)
    next
      case nolt: False
      obtain e1 bw1 w1 where b: "bodyWriter_Write bw w hdr = (e1, bw1, w1)"
        by (cases "bodyWriter_Write bw w hdr")
      have m1: "rw_header w1 = rw_header w" "rw_status w1 = rw_status w"
        using bodyWriter_Write_meta [of bw w hdr] b by simp_all
      show ?thesis
      proof (cases e1)
        case (Some err)
        then show ?thesis using nolt b m1 by (simp add: E)
      next
        case None
        obtain e2 bw2 w2 where c: "CopyN bw1 w1 rest (unat len) = (e2, bw2, w2)"
          by (cases "CopyN bw1 w1 rest (unat len)")
        have m2: "rw_header w2 = rw_header w" "rw_status w2 = rw_status w"
          using CopyN_meta [of bw1 w1 rest "unat len"] c m1 by simp_all
        show ?thesis
        proof (cases e2)
          case (Some err)
          then show ?thesis using nolt b None c m2 by (simp add: E)
        next
          case n2: None
          have "emitFrames buf bw w = emitFrames (drop (unat len) rest) bw2 w2"
            using nolt b None c n2 by (simp add: E)
          moreover have "rw_header (snd (snd (snd (emitFrames (drop (unat len) rest) bw2 w2)))) = rw_header w2 \<and>
              rw_status (snd (snd (snd (emitFrames (drop (unat len) rest) bw2 w2)))) = rw_status w2"
            using "1.IH" [of "take 5 buf" len None "(bw1, w1)" bw1 w1 None "(bw2, w2)" bw2 w2]
              long nolt b None c n2
            by (simp add: len_def hdr_def rest_def)
          ultimately show ?thesis
            using m2 by simp
        qed
      qed
    qed
  qed
qed

lemma Write_meta:
  "rw_header (rw (snd (Write s p))) = rw_header (rw (if headersWritten s then s else writeHeaders s))"
  "rw_status (rw (snd (Write s p))) = rw_status (rw (if headersWritten s then s else writeHeaders s))"
  using emitFrames_meta [of "frameBuffer (if headersWritten s then s else writeHeaders s) @ p"
      "bodyWriter (if headersWritten s then s else writeHeaders s)"
      "rw (if headersWritten s then s else writeHeaders s)"]
  by (auto simp add: Write_def Let_def split: prod.splits option.splits)

lemma Flush_meta:
  "rw_header (rw (Flush s)) = rw_header (rw (if headersWritten s then s else writeHeaders s))"
  "rw_status (rw (Flush s)) = rw_status (rw (if headersWritten s then s else writeHeaders s))"
  by (simp_all add: Flush_def Let_def rw_Flush_def)

lemma bodyWriter_Write_metaD:
  "bodyWriter_Write bw w p = (e, bw', w') \<Longrightarrow> rw_header w' = rw_header w \<and> rw_status w' = rw_status w"
  using bodyWriter_Write_meta [of bw w p] by simp

lemma bodyWriter_Close_metaD:
  "bodyWriter_Close bw w = (e, bw', w') \<Longrightarrow> rw_header w' = rw_header w \<and> rw_status w' = rw_status w"
  using bodyWriter_Close_meta [of bw w] by simp

subsection \<open>\<^verbatim>\<open>Finish\<close>\<close>

lemma synthesizeTrailers_frame [simp]:
  "rw (synthesizeTrailers s) = rw s"
  "bodyWriter (synthesizeTrailers s) = bodyWriter s"
  "headersWritten (synthesizeTrailers s) = headersWritten s"
  "frameBuffer (synthesizeTrailers s) = frameBuffer s"
  "flusher (synthesizeTrailers s) = flusher s"
  "capturedStatusCode (synthesizeTrailers s) = capturedStatusCode s"
  "isTextResponse (synthesizeTrailers s) = isTextResponse s"
  "headers (synthesizeTrailers s) = headers s"
  by (simp_all add: synthesizeTrailers_def Let_def)

text \<open>The ways in which \<^verbatim>\<open>Finish\<close> ends.\<close>

lemma Finish_cases:
  fixes hw s
  defines "s1 \<equiv> synthesizeTrailers (if \<not> headersWritten s then writeHeaders s else s)"
  obtains
    (serialize_fails) err where "hw (trailers s1) = Inl err"
      "Finish hw s = (Some (Wrapped ''failed to serialize trailers'' err), s1)"
  | (header_fails) tb err bw1 w1 where "hw (trailers s1) = Inr tb"
      "bodyWriter_Write (bodyWriter s1) (rw s1)
         (grpcTrailerFrame # PutUint32 (of_nat (length tb))) = (Some err, bw1, w1)"
      "Finish hw s = (Some (Wrapped ''failed to write trailer frame header'' err),
         s1\<lparr>bodyWriter := bw1, rw := w1\<rparr>)"
  | (payload_fails) tb err bw1 w1 bw2 w2 where "hw (trailers s1) = Inr tb"
      "bodyWriter_Write (bodyWriter s1) (rw s1)
         (grpcTrailerFrame # PutUint32 (of_nat (length tb))) = (None, bw1, w1)"
      "bodyWriter_Write bw1 w1 tb = (Some err, bw2, w2)"
      "Finish hw s = (Some (Wrapped ''failed to write trailer payload'' err),
         s1\<lparr>bodyWriter := bw2, rw := w2\<rparr>)"
  | (close_fails) tb err bw1 w1 bw2 w2 bw3 w3 where "hw (trailers s1) = Inr tb"
      "bodyWriter_Write (bodyWriter s1) (rw s1)
         (grpcTrailerFrame # PutUint32 (of_nat (length tb))) = (None, bw1, w1)"
      "bodyWriter_Write bw1 w1 tb = (None, bw2, w2)"
      "bodyWriter_Close bw2 w2 = (Some err, bw3, w3)"
      "Finish hw s = (Some (Wrapped ''failed closing body writer'' err),
         s1\<lparr>bodyWriter := bw3, rw := w3\<rparr>)"
  | (succeeds) tb bw1 w1 bw2 w2 bw3 w3 where "hw (trailers s1) = Inr tb"
      "bodyWriter_Write (bodyWriter s1) (rw s1)
         (grpcTrailerFrame # PutUint32 (of_nat (length tb))) = (None, bw1, w1)"
      "bodyWriter_Write bw1 w1 tb = (None, bw2, w2)"
      "bodyWriter_Close bw2 w2 = (None, bw3, w3)"
      "Finish hw s = (None, Flush (s1\<lparr>bodyWriter := bw3, rw := w3\<rparr>))"
proof (cases "hw (trailers s1)")
  case (Inl err)
  then have "Finish hw s = (Some (Wrapped ''failed to serialize trailers'' err), s1)"
    by (simp add: Finish_def Let_def s1_def)
  with Inl show ?thesis by (rule serialize_fails)
next
  case (Inr tb)
  obtain e1 bw1 w1 where b1: "bodyWriter_Write (bodyWriter s1) (rw s1)
         (grpcTrailerFrame # PutUint32 (of_nat (length tb))) = (e1, bw1, w1)"
    by (cases "bodyWriter_Write (bodyWriter s1) (rw s1)
         (grpcTrailerFrame # PutUint32 (of_nat (length tb)))")
  obtain e2 bw2 w2 where b2: "bodyWriter_Write bw1 w1 tb = (e2, bw2, w2)"
    by (cases "bodyWriter_Write bw1 w1 tb")
  obtain e3 bw3 w3 where b3: "bodyWriter_Close bw2 w2 = (e3, bw3, w3)"
    by (cases "bodyWriter_Close bw2 w2")
  have F: "Finish hw s =
      (case e1 of Some err \<Rightarrow> (Some (Wrapped ''failed to write trailer frame header'' err),
                                s1\<lparr>bodyWriter := bw1, rw := w1\<rparr>)
       | None \<Rightarrow> (case e2 of Some err \<Rightarrow> (Some (Wrapped ''failed to write trailer payload'' err),
                                s1\<lparr>bodyWriter := bw2, rw := w2\<rparr>)
          | None \<Rightarrow> (case e3 of Some err \<Rightarrow> (Some (Wrapped ''failed closing body writer'' err),
                                s1\<lparr>bodyWriter := bw3, rw := w3\<rparr>)
             | None \<Rightarrow> (None, Flush (s1\<lparr>bodyWriter := bw3, rw := w3\<rparr>)))))"
    using Inr b1 b2 b3 unfolding Finish_def Let_def s1_def [symmetric]
    by (simp split: option.split)
  show ?thesis
  proof (cases e1)
    case (Some err)
    with F Inr b1 show ?thesis by (intro header_fails) simp_all
  next
    case n1: None
    show ?thesis
    proof (cases e2)
      case (Some err)
      with F Inr b1 b2 n1 show ?thesis by (intro payload_fails) simp_all
    next
      case n2: None
      show ?thesis
      proof (cases e3)
        case (Some err)
        with F Inr b1 b2 b3 n1 n2 show ?thesis by (intro close_fails) simp_all
      next
        case n3: None
        with F Inr b1 b2 b3 n1 n2 show ?thesis by (intro succeeds) simp_all
      qed
    qed
  qed
qed

lemma Flush_rw:
  "rw_header (rw (Flush s)) = rw_header (rw (if headersWritten s then s else writeHeaders s))"
  "rw_status (rw (Flush s)) = rw_status (rw (if headersWritten s then s else writeHeaders s))"
  "rw_body (rw (Flush s)) = rw_body (rw s)"
  by (simp_all add: Flush_def Let_def rw_Flush_def)

lemma Finish_meta:
  "rw_header (rw (snd (Finish hw s))) = rw_header (rw (if headersWritten s then s else writeHeaders s)) \<and>
   rw_status (rw (snd (Finish hw s))) = rw_status (rw (if headersWritten s then s else writeHeaders s))"
proof (cases hw s rule: Finish_cases)
  case (serialize_fails err)
  then show ?thesis by simp
next
  case (header_fails tb err bw1 w1)
  then show ?thesis by (auto dest!: bodyWriter_Write_metaD)
next
  case (payload_fails tb err bw1 w1 bw2 w2)
  then show ?thesis by (auto dest!: bodyWriter_Write_metaD)
next
  case (close_fails tb err bw1 w1 bw2 w2 bw3 w3)
  then show ?thesis by (auto dest!: bodyWriter_Write_metaD bodyWriter_Close_metaD)
next
  case (succeeds tb bw1 w1 bw2 w2 bw3 w3)
  then show ?thesis by (auto simp add: Flush_rw dest!: bodyWriter_Write_metaD bodyWriter_Close_metaD)
qed

subsection \<open>Header finalization\<close>

lemma writeHeaders_transport:
  assumes "\<not> headersWritten s"
  shows "finalizedFrom s (rw (writeHeaders s))"
  using assms
  by (simp add: finalizedFrom_def writeHeaders_def Let_def rw_WriteHeader_def StatusOK_def
      Header_Set_def Header_Add_def CanonicalHeaderKey_Content_Type CanonicalHeaderKey_Expose
      ContentTypeGRPCWebTextProto_def ContentTypeGRPCWebProto_def split: option.split)

text \<open>
  Claim C7. Whichever of \<^verbatim>\<open>writeHeaders\<close>, \<^verbatim>\<open>Write\<close>, \<^verbatim>\<open>Flush\<close> and \<^verbatim>\<open>Finish\<close> finalizes
  the headers of a writer, the transport then has received \<^verbatim>\<open>WriteHeader(200)\<close>, whatever
  the captured status code is, its Content-Type is the fixed value of the mode, and its
  Access-Control-Expose-Headers field has the added value \<^verbatim>\<open>grpc-status, grpc-message\<close>.
\<close>

theorem header_finalization_outcome:
  assumes "\<not> headersWritten s"
  shows "finalizedFrom s (rw (writeHeaders s)) \<and>
         finalizedFrom s (rw (snd (Write s p))) \<and>
         finalizedFrom s (rw (Flush s)) \<and>
         finalizedFrom s (rw (snd (Finish headerWrite s)))"
  using writeHeaders_transport [OF assms] assms
  by (simp add: finalizedFrom_def Write_meta Flush_meta Finish_meta [of headerWrite s])

theorem header_finalization_outcome_witness:
  "\<not> headersWritten (WriteHeader (NewStreamingResponseWriter NewRecorder True) 500) \<and>
   rw_status (rw (snd (Write (WriteHeader (NewStreamingResponseWriter NewRecorder True) 500) []))) = [200] \<and>
   rw_header (rw (snd (Write (WriteHeader (NewStreamingResponseWriter NewRecorder True) 500) [])))
     ''Content-Type'' = Some [''application/grpc-web-text+proto'']"
proof -
  let ?s = "WriteHeader (NewStreamingResponseWriter NewRecorder True) 500"
  have h: "\<not> headersWritten ?s"
    by (simp add: WriteHeader_def NewStreamingResponseWriter_def)
  have "isTextResponse ?s" "rw_status (rw ?s) = []"
    by (simp_all add: WriteHeader_def NewStreamingResponseWriter_def NewRecorder_def)
  with header_finalization_outcome [OF h, of "[]"] h show ?thesis
    by (simp add: finalizedFrom_def)
qed

subsection \<open>Trailer promotion\<close>




lemma CanonicalHeaderKey_Trailer: "CanonicalHeaderKey ''Trailer'' = ''Trailer''"
  by code_simp



subsection \<open>Trailer synthesis\<close>

lemma CanonicalHeaderKey_Grpc_Status: "CanonicalHeaderKey ''Grpc-Status'' = ''Grpc-Status''"
  by code_simp

lemma CanonicalHeaderKey_Grpc_Message: "CanonicalHeaderKey ''Grpc-Message'' = ''Grpc-Message''"
  by code_simp

lemma Flush_trailers: "headersWritten s \<Longrightarrow> trailers (Flush s) = trailers s"
  by (simp add: Flush_def Let_def)

lemma Finish_trailers:
  "trailers (snd (Finish hw s)) =
     trailers (synthesizeTrailers (if \<not> headersWritten s then writeHeaders s else s))"
  by (cases hw s rule: Finish_cases) (simp_all add: Flush_trailers)

lemma statusText_nonempty: "map_of statusText c = Some phrase \<Longrightarrow> phrase \<noteq> []"
proof -
  assume "map_of statusText c = Some phrase"
  then have "(c, phrase) \<in> set statusText"
    by (rule map_of_SomeD)
  moreover have "\<forall>(c, phrase) \<in> set statusText. phrase \<noteq> []"
    by (simp add: statusText_def)
  ultimately show ?thesis
    by blast
qed

lemma httpStatusToGrpcCode_nonzero:
  "c \<noteq> 200 \<Longrightarrow> int_of_Code (httpStatusToGrpcCode c) \<noteq> 0"
  by (simp add: httpStatusToGrpcCode_def StatusOK_def)

lemma Itoa_0: "Itoa 0 = ''0''"
  by code_simp

text \<open>
  Claim C4, as amended. If the trailers, once the headers are finalized, have no Grpc-Status
  value, \<^verbatim>\<open>Finish\<close> sets Grpc-Status to \<^verbatim>\<open>0\<close> when the captured status code is 200, and
  otherwise to the number of the code that \<^const>\<open>httpStatusToGrpcCode\<close> gives, which is not
  zero. In the second case the trailers keep a Grpc-Message they have, and get
  \<^verbatim>\<open>http.StatusText\<close> of the captured code as Grpc-Message when they have none: the message
  is then not empty for every status code of the table of net/http.
\<close>

theorem Finish_trailer_synthesis:
  assumes "Header_Get (trailers (if headersWritten s then s else writeHeaders s)) ''Grpc-Status'' = []"
  shows "(capturedStatusCode s = 200 \<longrightarrow>
            trailers (snd (Finish headerWrite s)) ''Grpc-Status'' = Some [''0'']) \<and>
         (capturedStatusCode s \<noteq> 200 \<longrightarrow>
            trailers (snd (Finish headerWrite s)) ''Grpc-Status'' =
              Some [Itoa (int_of_Code (httpStatusToGrpcCode (capturedStatusCode s)))] \<and>
            int_of_Code (httpStatusToGrpcCode (capturedStatusCode s)) \<noteq> 0 \<and>
            Header_Get (trailers (snd (Finish headerWrite s))) ''Grpc-Message'' =
              (if Header_Get (trailers (if headersWritten s then s else writeHeaders s))
                    ''Grpc-Message'' = []
               then StatusText (capturedStatusCode s)
               else Header_Get (trailers (if headersWritten s then s else writeHeaders s))
                      ''Grpc-Message'') \<and>
            (capturedStatusCode s \<in> fst ` set statusText \<longrightarrow>
               Header_Get (trailers (snd (Finish headerWrite s))) ''Grpc-Message'' \<noteq> []))"
proof -
  let ?f = "if headersWritten s then s else writeHeaders s"
  have f: "(if \<not> headersWritten s then writeHeaders s else s) = ?f"
    by simp
  have c: "capturedStatusCode ?f = capturedStatusCode s"
    by simp
  have reg: "capturedStatusCode s \<in> fst ` set statusText \<Longrightarrow> StatusText (capturedStatusCode s) \<noteq> []"
  proof -
    assume "capturedStatusCode s \<in> fst ` set statusText"
    then obtain phrase where "map_of statusText (capturedStatusCode s) = Some phrase"
      by (metis domIff dom_map_of_conv_image_fst not_Some_eq)
    then show ?thesis
      using statusText_nonempty by (simp add: StatusText_def)
  qed
  show ?thesis
    unfolding Finish_trailers f
    using assms reg httpStatusToGrpcCode_nonzero [of "capturedStatusCode s"]
    by (simp add: synthesizeTrailers_def Let_def c Header_Get_def Header_Set_def
        CanonicalHeaderKey_Grpc_Status CanonicalHeaderKey_Grpc_Message StatusOK_def
        httpStatusToGrpcCode_def [of 200] Itoa_0)
qed

lemma writeHeaders_no_Trailer:
  "\<not> headersWritten s \<Longrightarrow> headers s ''Trailer'' = None \<Longrightarrow> trailers (writeHeaders s) = trailers s"
  by (simp add: writeHeaders_def Let_def)

theorem Finish_trailer_synthesis_witness:
  "Header_Get (trailers (if headersWritten notFoundWriter then notFoundWriter
                         else writeHeaders notFoundWriter)) ''Grpc-Status'' = [] \<and>
   capturedStatusCode notFoundWriter = 404 \<and>
   trailers (snd (Finish statusLines notFoundWriter)) ''Grpc-Status'' = Some [''12''] \<and>
   Header_Get (trailers (snd (Finish statusLines notFoundWriter))) ''Grpc-Message'' = ''Not Found''"
proof -
  have s: "\<not> headersWritten notFoundWriter" "headers notFoundWriter ''Trailer'' = None"
    "trailers notFoundWriter = Map.empty" "capturedStatusCode notFoundWriter = 404"
    by (simp_all add: notFoundWriter_def WriteHeader_def NewStreamingResponseWriter_def)
  have t: "trailers (if headersWritten notFoundWriter then notFoundWriter
                     else writeHeaders notFoundWriter) = Map.empty"
    using s by (simp add: writeHeaders_no_Trailer)
  have h: "Header_Get (trailers (if headersWritten notFoundWriter then notFoundWriter
                         else writeHeaders notFoundWriter)) ''Grpc-Status'' = []"
    unfolding t by (simp add: Header_Get_def)
  have m: "Header_Get (trailers (if headersWritten notFoundWriter then notFoundWriter
                         else writeHeaders notFoundWriter)) ''Grpc-Message'' = []"
    unfolding t by (simp add: Header_Get_def)
  have i: "Itoa (int_of_Code (httpStatusToGrpcCode 404)) = ''12''"
    by code_simp
  have x: "StatusText 404 = ''Not Found''"
    by (simp add: StatusText_def statusText_def)
  from Finish_trailer_synthesis [OF h, of statusLines] h show ?thesis
    unfolding m by (simp add: s i x)
qed

text \<open>
  Claim C4 as stated fails in two ways. After \<^verbatim>\<open>WriteHeader(499)\<close>, a code for which
  \<^verbatim>\<open>http.StatusText\<close> is empty, \<^verbatim>\<open>Finish\<close> sets Grpc-Status to \<^verbatim>\<open>2\<close> and Grpc-Message to
  the empty string. And when \<^verbatim>\<open>Finish\<close> itself finalizes the headers, a Grpc-Status that
  the buffered headers announce as a trailer is promoted first and kept, although the
  trailers had no Grpc-Status when \<^verbatim>\<open>Finish\<close> was called.
\<close>

theorem Finish_trailer_synthesis_counterexample:
  "trailers clientClosedWriter ''Grpc-Status'' = None \<and>
   capturedStatusCode clientClosedWriter = 499 \<and>
   trailers (snd (Finish statusLines clientClosedWriter)) ''Grpc-Status'' = Some [''2''] \<and>
   trailers (snd (Finish statusLines clientClosedWriter)) ''Grpc-Message'' = Some [[]] \<and>
   Header_Get (trailers (snd (Finish statusLines clientClosedWriter))) ''Grpc-Message'' = [] \<and>
   trailers explicitStatusWriter ''Grpc-Status'' = None \<and>
   capturedStatusCode explicitStatusWriter = 200 \<and>
   trailers (snd (Finish statusLines explicitStatusWriter)) ''Grpc-Status'' = Some [''13'']"
proof -
  have s: "\<not> headersWritten clientClosedWriter" "headers clientClosedWriter ''Trailer'' = None"
    "trailers clientClosedWriter = Map.empty" "capturedStatusCode clientClosedWriter = 499"
    by (simp_all add: clientClosedWriter_def WriteHeader_def NewStreamingResponseWriter_def)
  have i: "Itoa (int_of_Code (httpStatusToGrpcCode 499)) = ''2''"
    by code_simp
  have x: "StatusText 499 = []"
    by (simp add: StatusText_def statusText_def)
  have a: "trailers (snd (Finish statusLines clientClosedWriter)) =
             [''Grpc-Status'' \<mapsto> [''2''], ''Grpc-Message'' \<mapsto> [[]]]"
    unfolding Finish_trailers using s
    by (simp add: writeHeaders_no_Trailer synthesizeTrailers_def Let_def Header_Get_def
        Header_Set_def CanonicalHeaderKey_Grpc_Status CanonicalHeaderKey_Grpc_Message
        StatusOK_def i x)
  have e: "\<not> headersWritten explicitStatusWriter"
    "headers explicitStatusWriter ''Trailer'' = Some [''Grpc-Status'']"
    "headers explicitStatusWriter ''Grpc-Status'' = Some [''13'']"
    "trailers explicitStatusWriter = Map.empty" "capturedStatusCode explicitStatusWriter = 200"
    by (simp_all add: explicitStatusWriter_def NewStreamingResponseWriter_def StatusOK_def)
  have ck: "CanonicalHeaderKey (TrimSpace ''Grpc-Status'') = ''Grpc-Status''"
    by code_simp
  have p: "trailers (writeHeaders explicitStatusWriter) = [''Grpc-Status'' \<mapsto> [''13'']]"
    using e by (simp add: writeHeaders_def Let_def promoteAll_def promote_def ck)
  have b: "trailers (snd (Finish statusLines explicitStatusWriter)) ''Grpc-Status'' = Some [''13'']"
    unfolding Finish_trailers using e
    by (simp add: p synthesizeTrailers_def Let_def Header_Get_def Header_Set_def
        CanonicalHeaderKey_Grpc_Status CanonicalHeaderKey_Grpc_Message StatusOK_def)
  show ?thesis
    using s e b by (simp add: a Header_Get_def CanonicalHeaderKey_Grpc_Message)
qed

subsection \<open>Reading truncated frames\<close>

lemma Read_header_short:
  assumes "buffer fr = []" and "rd_data (source fr) \<noteq> []" and "length (rd_data (source fr)) < 5"
  shows "fst (Read fr n) =
           Inl (case rd_fail (source fr) of None \<Rightarrow> ErrUnexpectedEOF | Some msg \<Rightarrow> IOError msg)"
  using assms by (simp add: Read_def ReadFull_def rd_end_def split: option.split)

lemma Read_payload_short:
  assumes "buffer fr = []" and "rd_data (source fr) = grpcDataFrame # PutUint32 len @ rest"
    and "length rest < unat len"
  shows "fst (Read fr n) = Inl (Wrapped ''error copying frame data'' (rd_end (source fr)))"
proof -
  have pos: "0 < len"
    using assms(3) by (simp add: word_greater_zero_iff unat_gt_0 [symmetric])
  have hd: "take 5 (rd_data (source fr)) = grpcDataFrame # PutUint32 len"
    "drop 5 (rd_data (source fr)) = rest"
    by (simp_all add: assms(2))
  have R: "ReadFull (source fr) 5 =
             (Inr (grpcDataFrame # PutUint32 len), (source fr)\<lparr>rd_data := rest\<rparr>)"
    unfolding ReadFull_def hd by (simp add: assms(2))
  show ?thesis
    using assms(1,3) pos
    by (simp add: Read_def R CopyN_from_def Let_def rd_end_def)
qed

text \<open>
  Claim C6, as amended. Let the reader have no pending output. If the source ends after
  one to four bytes, \<^verbatim>\<open>Read\<close> returns no bytes and \<^verbatim>\<open>io.ErrUnexpectedEOF\<close>, or the error of
  the source when it failed. If the source holds a complete header of a DATA frame (flag
  0x00) and then fewer payload bytes than the header declares, \<^verbatim>\<open>Read\<close> returns no bytes
  and an error that wraps \<^verbatim>\<open>io.EOF\<close>, or the error of the source when it failed. Neither
  error is the value \<^verbatim>\<open>io.EOF\<close>.
\<close>

theorem Read_truncated_data_frame:
  assumes "buffer fr = []"
  shows "(rd_data (source fr) \<noteq> [] \<and> length (rd_data (source fr)) < 5 \<longrightarrow>
            fst (Read fr n) =
              Inl (case rd_fail (source fr) of None \<Rightarrow> ErrUnexpectedEOF | Some msg \<Rightarrow> IOError msg) \<and>
            fst (Read fr n) \<noteq> Inl EOF) \<and>
         (rd_data (source fr) = grpcDataFrame # PutUint32 len @ rest \<and> length rest < unat len \<longrightarrow>
            fst (Read fr n) =
              Inl (Wrapped ''error copying frame data''
                     (case rd_fail (source fr) of None \<Rightarrow> EOF | Some msg \<Rightarrow> IOError msg)) \<and>
            fst (Read fr n) \<noteq> Inl EOF)"
  using Read_header_short [OF assms, of n] Read_payload_short [OF assms, of len rest n]
  by (auto simp add: rd_end_def split: option.splits)

theorem Read_truncated_data_frame_witness:
  "buffer truncatedDataFrame = [] \<and>
   rd_data (source truncatedDataFrame) = grpcDataFrame # PutUint32 2 @ [7] \<and>
   length [7 :: byte] < unat (2 :: uint32) \<and>
   fst (Read truncatedDataFrame 4096) = Inl (Wrapped ''error copying frame data'' EOF)"
proof -
  have h: "buffer truncatedDataFrame = []"
    by (simp add: truncatedDataFrame_def)
  have d: "rd_data (source truncatedDataFrame) = grpcDataFrame # PutUint32 2 @ [7]"
    "rd_fail (source truncatedDataFrame) = None"
    by (simp_all add: truncatedDataFrame_def grpcDataFrame_def PutUint32_def)
  from Read_truncated_data_frame [OF h, where len = 2 and rest = "[7]" and n = 4096] h d
  show ?thesis
    by simp
qed

text \<open>
  Claim C6 as stated fails for a frame whose flag is not DATA: the reader answers a
  complete header with another flag by \<^verbatim>\<open>io.EOF\<close> before it looks at the length, also when
  the source ends before the declared payload.
\<close>

theorem Read_truncated_trailer_frame_counterexample:
  "buffer truncatedTrailerFrame = [] \<and>
   rd_data (source truncatedTrailerFrame) = grpcTrailerFrame # PutUint32 10 @ [1, 2, 3] \<and>
   length [1, 2, 3 :: byte] < unat (10 :: uint32) \<and>
   fst (Read truncatedTrailerFrame 4096) = Inl EOF"
  by (simp add: truncatedTrailerFrame_def Read_def ReadFull_def grpcTrailerFrame_def
      grpcDataFrame_def PutUint32_def)

subsection \<open>Base64: decoding what was encoded\<close>

lemma digits64:
  fixes n :: nat
  assumes "n < 16777216"
  shows "n div 262144 mod 64 * 262144 + n div 4096 mod 64 * 4096 + n div 64 mod 64 * 64 + n mod 64 = n"
proof -
  define q1 where "q1 = n div 64"
  define q2 where "q2 = q1 div 64"
  define q3 where "q3 = q2 div 64"
  have d: "n div 64 = q1" "n div 4096 = q2" "n div 262144 = q3"
    unfolding q1_def q2_def q3_def by (simp_all add: div_mult2_eq [symmetric])
  have e: "q1 * 64 + n mod 64 = n" "q2 * 64 + q1 mod 64 = q1" "q3 * 64 + q2 mod 64 = q2"
    unfolding q1_def q2_def q3_def by (rule div_mult_mod_eq)+
  have "q3 < 64"
    using assms unfolding d(3) [symmetric] by (simp add: less_mult_imp_div_less)
  then have "q3 mod 64 = q3"
    by simp
  then show ?thesis
    unfolding d using e by linarith
qed

lemma bytes3:
  fixes x y z :: nat
  assumes "y < 256" "z < 256"
  shows "(x * 65536 + y * 256 + z) div 65536 = x"
    and "(x * 65536 + y * 256 + z) div 256 mod 256 = y"
    and "(x * 65536 + y * 256 + z) mod 256 = z"
proof -
  define w where "w = x * 256 + y"
  have v: "x * 65536 + y * 256 + z = w * 256 + z"
    by (simp add: w_def)
  have 1: "(w * 256 + z) div 256 = w"
    using assms(2) by simp
  have 2: "w div 256 = x" "w mod 256 = y"
    using assms(1) by (simp_all add: w_def)
  have 3: "(w * 256 + z) mod 256 = z"
    using assms(2) by simp
  have 4: "(w * 256 + z) div 65536 = (w * 256 + z) div 256 div 256"
    by (simp add: div_mult2_eq [symmetric])
  show "(x * 65536 + y * 256 + z) div 65536 = x"
    unfolding v 4 1 2 ..
  show "(x * 65536 + y * 256 + z) div 256 mod 256 = y"
    unfolding v 1 2 ..
  show "(x * 65536 + y * 256 + z) mod 256 = z"
    unfolding v 3 ..
qed

lemma low_zero:
  fixes x y :: nat
  shows "(x * 65536 + y * 256) mod 64 = 0"
    and "(x * 65536) div 64 mod 64 = 0"
proof -
  have "x * 65536 + y * 256 = (x * 1024 + y * 4) * 64"
    by simp
  then show "(x * 65536 + y * 256) mod 64 = 0"
    by simp
  have "x * 65536 = (x * 1024) * 64"
    by simp
  then have "(x * 65536) div 64 = x * 16 * 64"
    by simp
  then show "(x * 65536) div 64 mod 64 = 0"
    by simp
qed


lemma byte_lt: "unat (a :: byte) < 256"
  using unsigned_less [of a, where 'a = nat] by simp

lemma encodeStd_nth:
  assumes "i < 64"
  shows "encodeStd ! i =
           of_nat (if i < 26 then 65 + i else if i < 52 then 71 + i else if i < 62 then i - 4
                   else if i = 62 then 43 else 47)"
proof -
  define alphabet :: "nat list" where "alphabet = [65..<91] @ [97..<123] @ [48..<58] @ [43, 47]"
  have n: "alphabet ! i =
          (if i < 26 then 65 + i else if i < 52 then 71 + i else if i < 62 then i - 4
           else if i = 62 then 43 else 47)"
    unfolding alphabet_def using assms
    by (auto simp add: nth_append nth_Cons' simp del: upt_rec_numeral)
  have "length alphabet = 64"
    unfolding alphabet_def by (simp del: upt_rec_numeral)
  with assms have "map of_nat alphabet ! i = (of_nat (alphabet ! i) :: byte)"
    by (intro nth_map) simp
  then show ?thesis
    unfolding encodeStd_def alphabet_def [symmetric] n .
qed

lemma decodeMap_encodeStd:
  assumes "i < 64"
  shows "decodeMap (encodeStd ! i) = Some i" and "encodeStd ! i \<noteq> StdPadding"
proof -
  define k where "k = (if i < 26 then 65 + i else if i < 52 then 71 + i else if i < 62 then i - 4
                   else if i = 62 then 43 else 47)"
  have k: "k < 256"
    unfolding k_def using assms by auto
  then have u: "unat (of_nat k :: byte) = k"
    by (simp add: unat_of_nat)
  have e: "encodeStd ! i = of_nat k"
    using encodeStd_nth [OF assms] by (simp add: k_def)
  show "decodeMap (encodeStd ! i) = Some i"
    unfolding e decodeMap_def Let_def u using assms by (auto simp add: k_def)
  have "unat (encodeStd ! i) \<noteq> unat StdPadding"
    unfolding e u using assms by (auto simp add: k_def StdPadding_def)
  then show "encodeStd ! i \<noteq> StdPadding"
    by auto
qed

lemma Decode4_Encode3:
  "\<exists>c0 c1 c2 c3. Encode3 a b c = [c0, c1, c2, c3] \<and> c0 \<noteq> StdPadding \<and> c1 \<noteq> StdPadding \<and>
     c2 \<noteq> StdPadding \<and> c3 \<noteq> StdPadding \<and> Decode4 c0 c1 c2 c3 = Some [a, b, c]"
proof -
  define val where "val = unat a * 65536 + unat b * 256 + unat c"
  have "val < 16777216"
    using byte_lt [of a] byte_lt [of b] byte_lt [of c] unfolding val_def by linarith
  then have re: "val div 262144 mod 64 * 262144 + val div 4096 mod 64 * 4096 +
      val div 64 mod 64 * 64 + val mod 64 = val"
    by (rule digits64)
  have by0: "val div 65536 = unat a" "val div 256 mod 256 = unat b" "val mod 256 = unat c"
    unfolding val_def by (rule bytes3; rule byte_lt)+
  have E: "Encode3 a b c = [encodeStd ! (val div 262144 mod 64), encodeStd ! (val div 4096 mod 64),
          encodeStd ! (val div 64 mod 64), encodeStd ! (val mod 64)]"
    by (simp add: Encode3_def Let_def val_def)
  have D: "Decode4 (encodeStd ! (val div 262144 mod 64)) (encodeStd ! (val div 4096 mod 64))
          (encodeStd ! (val div 64 mod 64)) (encodeStd ! (val mod 64)) = Some [a, b, c]"
    unfolding Decode4_def by (simp add: decodeMap_encodeStd Let_def re by0)
  show ?thesis
    unfolding E using D by (simp add: decodeMap_encodeStd)
qed

lemma Encode3_zero:
  "Encode3 a b 0 ! 3 = encodeStd ! 0"
  "Encode3 a 0 0 ! 2 = encodeStd ! 0"
  by (simp_all add: Encode3_def Let_def low_zero)


lemma EncodeToString_simps:
  "EncodeToString [] = []"
  "EncodeToString [a] = take 2 (Encode3 a 0 0) @ [StdPadding, StdPadding]"
  "EncodeToString [a, b] = take 3 (Encode3 a b 0) @ [StdPadding]"
  "EncodeToString (a # b # c # rest) = Encode3 a b c @ EncodeToString rest"
  by (simp_all add: EncodeToString_def)

lemma EncodeToString_eq_Nil:
  assumes "EncodeToString xs = []"
  shows "xs = []"
proof (cases xs rule: encodeTail.cases)
  case 1
  then show ?thesis .
next
  case (2 a)
  with assms show ?thesis
    by (simp add: EncodeToString_simps)
next
  case (3 a b rest)
  with assms show ?thesis
    by (cases rest) (simp_all add: EncodeToString_simps Encode3_def Let_def)
qed

lemma DecodeString_EncodeToString: "DecodeString (EncodeToString xs) = Some xs"
proof (induction xs rule: encodeGroups.induct)
  fix a b c rest
  assume IH: "DecodeString (EncodeToString rest) = Some rest"
  obtain c0 c1 c2 c3 where E: "Encode3 a b c = [c0, c1, c2, c3]"
    and np: "c2 \<noteq> StdPadding" "c3 \<noteq> StdPadding"
    and D: "Decode4 c0 c1 c2 c3 = Some [a, b, c]"
    using Decode4_Encode3 [of a b c] by blast
  show "DecodeString (EncodeToString (a # b # c # rest)) = Some (a # b # c # rest)"
  proof (cases "EncodeToString rest")
    case Nil
    then have "rest = []"
      by (rule EncodeToString_eq_Nil)
    then show ?thesis
      by (simp add: EncodeToString_simps E np D)
  next
    case (Cons v vs)
    have "DecodeString (c0 # c1 # c2 # c3 # v # vs) = Some ([a, b, c] @ rest)"
      using IH by (simp add: D Cons)
    then show ?thesis
      by (simp add: EncodeToString_simps E Cons)
  qed
next
  show "DecodeString (EncodeToString []) = Some []"
    by (simp add: EncodeToString_simps)
next
  fix a
  obtain c0 c1 c2 c3 where E: "Encode3 a 0 0 = [c0, c1, c2, c3]"
    and D: "Decode4 c0 c1 c2 c3 = Some [a, 0, 0]"
    using Decode4_Encode3 [of a 0 0] by blast
  have z: "c2 = encodeStd ! 0" "c3 = encodeStd ! 0"
    using Encode3_zero(2) [of a] Encode3_zero(1) [of a 0] by (simp_all add: E)
  show "DecodeString (EncodeToString [a]) = Some [a]"
    using D by (simp add: EncodeToString_simps E z)
next
  fix a b
  obtain c0 c1 c2 c3 where E: "Encode3 a b 0 = [c0, c1, c2, c3]"
    and np: "c2 \<noteq> StdPadding"
    and D: "Decode4 c0 c1 c2 c3 = Some [a, b, 0]"
    using Decode4_Encode3 [of a b 0] by blast
  have z: "c3 = encodeStd ! 0"
    using Encode3_zero(1) [of a b] by (simp add: E)
  show "DecodeString (EncodeToString [a, b]) = Some [a, b]"
    using D by (simp add: EncodeToString_simps E z np)
qed

subsection \<open>Text mode against binary mode\<close>

lemma writeHeaders_fields:
  assumes "headers t = headers b" "trailers t = trailers b" "headersWritten t = headersWritten b"
  shows "headers (writeHeaders t) = headers (writeHeaders b)"
    and "trailers (writeHeaders t) = trailers (writeHeaders b)"
  using assms by (simp_all add: writeHeaders_def Let_def split: option.split)

lemma mirrors_finalize:
  assumes "mirrors t b"
  shows "mirrors (if headersWritten t then t else writeHeaders t)
           (if headersWritten b then b else writeHeaders b)"
  using assms writeHeaders_fields [of t b]
  by (auto simp add: mirrors_def)

lemma mirrors_New:
  assumes "rw_body w = []" "\<not> rw_broken w"
  shows "mirrors (NewStreamingResponseWriter w True) (NewStreamingResponseWriter w False)"
  using assms by (simp add: mirrors_def NewStreamingResponseWriter_def newFlushingBase64Writer_def)

lemma mirrors_Write:
  assumes "mirrors t b"
  shows "mirrors (snd (Write t p)) (snd (Write b p))"
proof -
  let ?t1 = "if \<not> headersWritten t then writeHeaders t else t"
  let ?b1 = "if \<not> headersWritten b then writeHeaders b else b"
  have hw: "headersWritten t = headersWritten b"
    using assms by (simp add: mirrors_def)
  have m: "mirrors ?t1 ?b1"
    using mirrors_finalize [OF assms] by (cases "headersWritten b") (simp_all add: hw)
  have okt: "\<not> rw_broken (rw t)" "bw_ok (bodyWriter t)"
    using assms by (simp_all add: mirrors_def length_residual)
  have okb: "\<not> rw_broken (rw b)" "bw_ok (bodyWriter b)"
    using assms by (simp_all add: mirrors_def)
  obtain err buf out where f: "framesOf (frameBuffer b @ p) = (err, buf, out)"
    by (cases "framesOf (frameBuffer b @ p)")
  have ft: "framesOf (frameBuffer t @ p) = (err, buf, out)"
    using f assms by (simp add: mirrors_def)
  have g: "encodeGroups (rw_body (rw b) @ out) =
             encodeGroups (rw_body (rw b)) @ encodeGroups (residual (rw_body (rw b)) @ out)"
    by (rule encodeGroups_append)
  have r: "residual (rw_body (rw b) @ out) = residual (residual (rw_body (rw b)) @ out)"
    by (rule residual_append)
  show ?thesis
    using m assms
    unfolding Write_ok [OF okt] Write_ok [OF okb] f ft Let_def
    by (simp add: mirrors_def g r)
qed

lemma mirrors_WriteAll:
  assumes "mirrors t b"
  shows "mirrors (WriteAll t ps) (WriteAll b ps)"
  using assms unfolding WriteAll_def
  by (induction ps arbitrary: t b) (simp_all add: mirrors_Write)

lemma encoder_Close_ok:
  assumes "\<not> rw_broken w" "enc_err e = None"
  shows "encoder_Close e w =
           (None, e\<lparr>enc_buf := []\<rparr>, w\<lparr>rw_body := rw_body w @ encodeTail (enc_buf e)\<rparr>)"
  using assms by (cases "enc_buf e = []") (simp_all add: encoder_Close_def rw_Write_def)

lemma Finish_mirrors:
  assumes "mirrors t b" and "fst (Finish hw t) = None"
  shows "fst (Finish hw b) = None"
    and "rw_body (rw (snd (Finish hw t))) = EncodeToString (rw_body (rw (snd (Finish hw b))))"
proof -
  let ?t1 = "synthesizeTrailers (if \<not> headersWritten t then writeHeaders t else t)"
  let ?b1 = "synthesizeTrailers (if \<not> headersWritten b then writeHeaders b else b)"
  have hw: "headersWritten t = headersWritten b"
    using assms(1) by (simp add: mirrors_def)
  have m: "mirrors (if \<not> headersWritten t then writeHeaders t else t)
             (if \<not> headersWritten b then writeHeaders b else b)"
    using mirrors_finalize [OF assms(1)] by (cases "headersWritten b") (simp_all add: hw)
  then have tr: "trailers ?t1 = trailers ?b1"
    by (simp add: mirrors_def synthesizeTrailers_def Let_def)
  define X where "X = rw_body (rw ?b1)"
  have bt: "bodyWriter ?t1 = FlushingBase64Writer \<lparr>enc_err = None, enc_buf = residual X\<rparr>"
    "rw_body (rw ?t1) = encodeGroups X" "\<not> rw_broken (rw ?t1)" "headersWritten ?t1"
    using m by (simp_all add: mirrors_def X_def)
  have bb: "bodyWriter ?b1 = ResponseWriterItself" "\<not> rw_broken (rw ?b1)" "headersWritten ?b1"
    using m by (simp_all add: mirrors_def)
  have okt: "bw_ok (bodyWriter ?t1)"
    unfolding bt by (simp add: length_residual)
  obtain tb where ser: "hw (trailers ?t1) = Inr tb"
    using assms(2) by (cases hw t rule: Finish_cases) simp_all
  define hdr where "hdr = grpcTrailerFrame # PutUint32 (of_nat (length tb))"
  text \<open>the binary run\<close>
  have b1: "bodyWriter_Write (bodyWriter ?b1) (rw ?b1) hdr =
              (None, ResponseWriterItself, (rw ?b1)\<lparr>rw_body := X @ hdr\<rparr>)"
    using bb by (simp add: rw_Write_def X_def)
  have b2: "bodyWriter_Write ResponseWriterItself ((rw ?b1)\<lparr>rw_body := X @ hdr\<rparr>) tb =
              (None, ResponseWriterItself, (rw ?b1)\<lparr>rw_body := X @ hdr @ tb\<rparr>)"
    using bb by (simp add: rw_Write_def)
  have Fb: "Finish hw b = (None, Flush (?b1\<lparr>bodyWriter := ResponseWriterItself,
              rw := (rw ?b1)\<lparr>rw_body := X @ hdr @ tb\<rparr>\<rparr>))"
    using ser b1 b2 unfolding Finish_def Let_def tr hdr_def by simp
  text \<open>the text run\<close>
  let ?e1 = "\<lparr>enc_err = None, enc_buf = residual (X @ hdr)\<rparr>"
  let ?w1 = "(rw ?t1)\<lparr>rw_body := encodeGroups (X @ hdr)\<rparr>"
  let ?e2 = "\<lparr>enc_err = None, enc_buf = residual (X @ hdr @ tb)\<rparr>"
  let ?w2 = "(rw ?t1)\<lparr>rw_body := encodeGroups (X @ hdr @ tb)\<rparr>"
  have t1: "bodyWriter_Write (bodyWriter ?t1) (rw ?t1) hdr = (None, FlushingBase64Writer ?e1, ?w1)"
    unfolding bt(1) using bt(2,3)
    by (simp add: encoder_Write_ok encodeGroups_append [of X hdr] residual_append [of X hdr])
  have t2: "bodyWriter_Write (FlushingBase64Writer ?e1) ?w1 tb = (None, FlushingBase64Writer ?e2, ?w2)"
    using bt(3)
    by (simp add: encoder_Write_ok encodeGroups_append [of "X @ hdr" tb, simplified]
        residual_append [of "X @ hdr" tb, simplified])
  have t3: "bodyWriter_Close (FlushingBase64Writer ?e2) ?w2 =
              (None, FlushingBase64Writer (?e2\<lparr>enc_buf := []\<rparr>),
               ?w2\<lparr>rw_body := EncodeToString (X @ hdr @ tb)\<rparr>)"
    using bt(3) by (simp add: encoder_Close_ok EncodeToString_def)
  have Ft: "Finish hw t = (None, Flush (?t1\<lparr>bodyWriter := FlushingBase64Writer (?e2\<lparr>enc_buf := []\<rparr>),
              rw := ?w2\<lparr>rw_body := EncodeToString (X @ hdr @ tb)\<rparr>\<rparr>))"
    using ser t1 t2 t3 unfolding Finish_def Let_def hdr_def by simp
  show "fst (Finish hw b) = None"
    by (simp add: Fb)
  show "rw_body (rw (snd (Finish hw t))) = EncodeToString (rw_body (rw (snd (Finish hw b))))"
    by (simp add: Ft Fb Flush_rw)
qed

text \<open>
  Claim C3. Take a response writer that has no body yet and accepts writes, and any
  sequence of \<^verbatim>\<open>Write\<close> calls followed by a \<^verbatim>\<open>Finish\<close> that succeeds. The bytes that the
  transport receives in text mode, up to the padding that closing the encoder emits, are
  the standard base64 encoding of the bytes it receives from the same calls in binary
  mode (where \<^verbatim>\<open>Finish\<close> succeeds as well): decoding the text-mode stream gives exactly
  the binary-mode stream, trailer frame included.
\<close>

theorem text_mode_is_base64_of_binary_mode:
  assumes "rw_body w = []" and "\<not> rw_broken w"
    and "fst (Finish headerWrite (WriteAll (NewStreamingResponseWriter w True) writes)) = None"
  shows "fst (Finish headerWrite (WriteAll (NewStreamingResponseWriter w False) writes)) = None \<and>
         rw_body (rw (snd (Finish headerWrite (WriteAll (NewStreamingResponseWriter w True) writes)))) =
           EncodeToString
             (rw_body (rw (snd (Finish headerWrite
                (WriteAll (NewStreamingResponseWriter w False) writes))))) \<and>
         DecodeString
           (rw_body (rw (snd (Finish headerWrite (WriteAll (NewStreamingResponseWriter w True) writes))))) =
           Some (rw_body (rw (snd (Finish headerWrite
                   (WriteAll (NewStreamingResponseWriter w False) writes)))))"
proof -
  have "mirrors (WriteAll (NewStreamingResponseWriter w True) writes)
          (WriteAll (NewStreamingResponseWriter w False) writes)"
    using assms(1,2) by (intro mirrors_WriteAll mirrors_New)
  from Finish_mirrors [OF this assms(3)] show ?thesis
    by (simp add: DecodeString_EncodeToString)
qed

lemma Write_keeps_ok:
  assumes "\<not> rw_broken (rw s)" "bw_ok (bodyWriter s)"
  shows "\<not> rw_broken (rw (snd (Write s p)))" "bw_ok (bodyWriter (snd (Write s p)))"
  using assms unfolding Write_ok [OF assms] Let_def
  by (simp_all add: bw_ok_after split: prod.split)

lemma WriteAll_keeps_ok:
  assumes "\<not> rw_broken (rw s)" "bw_ok (bodyWriter s)"
  shows "\<not> rw_broken (rw (WriteAll s ps)) \<and> bw_ok (bodyWriter (WriteAll s ps))"
  using assms unfolding WriteAll_def
  by (induction ps arbitrary: s) (simp_all add: Write_keeps_ok)

lemma bodyWriter_Close_ok:
  assumes "\<not> rw_broken w" "bw_ok bw"
  shows "fst (bodyWriter_Close bw w) = None"
  using assms by (cases bw) (simp_all add: encoder_Close_ok)

lemma Finish_succeeds:
  assumes "\<not> rw_broken (rw s)" "bw_ok (bodyWriter s)"
    and "hw (trailers (synthesizeTrailers (if \<not> headersWritten s then writeHeaders s else s))) = Inr tb"
  shows "fst (Finish hw s) = None"
proof -
  let ?s1 = "synthesizeTrailers (if \<not> headersWritten s then writeHeaders s else s)"
  have ok: "\<not> rw_broken (rw ?s1)" "bw_ok (bodyWriter ?s1)"
    using assms(1,2) by simp_all
  have first: "bodyWriter_Write (bodyWriter ?s1) (rw ?s1) p =
      (None, bw_after (bodyWriter ?s1) p,
       (rw ?s1)\<lparr>rw_body := rw_body (rw ?s1) @ bw_out (bodyWriter ?s1) p\<rparr>)" for p
    using ok by (rule bodyWriter_Write_ok)
  show ?thesis
  proof (cases hw s rule: Finish_cases)
    case (serialize_fails err)
    with assms(3) show ?thesis by simp
  next
    case (header_fails tb' err bw1 w1)
    from header_fails(2) show ?thesis
      unfolding first by simp
  next
    case (payload_fails tb' err bw1 w1 bw2 w2)
    from payload_fails(2) have "\<not> rw_broken w1" "bw_ok bw1"
      unfolding first using ok by (auto simp add: bw_ok_after)
    from bodyWriter_Write_ok [OF this] payload_fails(3) show ?thesis by simp
  next
    case (close_fails tb' err bw1 w1 bw2 w2 bw3 w3)
    from close_fails(2) have 1: "\<not> rw_broken w1" "bw_ok bw1"
      unfolding first using ok by (auto simp add: bw_ok_after)
    from close_fails(3) have "\<not> rw_broken w2" "bw_ok bw2"
      using 1 by (auto simp add: bodyWriter_Write_ok [OF 1] bw_ok_after)
    from bodyWriter_Close_ok [OF this] close_fails(4) show ?thesis by simp
  next
    case (succeeds tb' bw1 w1 bw2 w2 bw3 w3)
    then show ?thesis by simp
  qed
qed

theorem text_mode_is_base64_of_binary_mode_witness:
  "rw_body NewRecorder = [] \<and> \<not> rw_broken NewRecorder \<and>
   fst (Finish statusLines (WriteAll (NewStreamingResponseWriter NewRecorder True) chunkedFrame)) = None \<and>
   DecodeString
     (rw_body (rw (snd (Finish statusLines
        (WriteAll (NewStreamingResponseWriter NewRecorder True) chunkedFrame))))) =
     Some (rw_body (rw (snd (Finish statusLines
        (WriteAll (NewStreamingResponseWriter NewRecorder False) chunkedFrame)))))"
proof -
  let ?t = "WriteAll (NewStreamingResponseWriter NewRecorder True) chunkedFrame"
  have n: "rw_body NewRecorder = []" "\<not> rw_broken NewRecorder"
    by (simp_all add: NewRecorder_def)
  have "\<not> rw_broken (rw ?t) \<and> bw_ok (bodyWriter ?t)"
    by (rule WriteAll_keeps_ok) (simp_all add: NewStreamingResponseWriter_ok n)
  moreover have "statusLines
      (trailers (synthesizeTrailers (if \<not> headersWritten ?t then writeHeaders ?t else ?t))) =
      Inr (projr (statusLines
        (trailers (synthesizeTrailers (if \<not> headersWritten ?t then writeHeaders ?t else ?t)))))"
    by (simp add: statusLines_def)
  ultimately have f: "fst (Finish statusLines ?t) = None"
    by (intro Finish_succeeds) simp_all
  from text_mode_is_base64_of_binary_mode [OF n f] n f show ?thesis
    by (simp add: DecodeString_EncodeToString)
qed

subsection \<open>The completeness test below four gigabytes\<close>

lemma unat_5_plus_le: "unat (5 + len :: uint32) \<le> 5 + unat len"
  by (simp add: unat_word_ariths)

lemma of_nat_not_less:
  assumes "n < 2 ^ 32" and "5 + unat len \<le> n"
  shows "\<not> (of_nat n :: uint32) < 5 + len"
proof -
  have "unat (of_nat n :: uint32) = n"
    using assms(1) by (simp add: unat_of_nat)
  with assms(2) unat_5_plus_le [of len] show ?thesis
    by (simp add: word_less_nat_alt)
qed

lemma of_nat_less_iff:
  assumes "n < 2 ^ 32" and "5 + unat len < 2 ^ 32"
  shows "(of_nat n :: uint32) < 5 + len \<longleftrightarrow> n < 5 + unat len"
proof -
  have "unat (of_nat n :: uint32) = n"
    using assms(1) by (simp add: unat_of_nat)
  moreover have "unat (5 + len) = 5 + unat len"
    using assms(2) by (simp add: unat_word_ariths)
  ultimately show ?thesis
    by (simp add: word_less_nat_alt)
qed

lemma of_nat_less_imp:
  assumes "n < 2 ^ 32" and "(of_nat n :: uint32) < 5 + len"
  shows "n < 5 + unat len"
proof -
  have "unat (of_nat n :: uint32) = n"
    using assms(1) by (simp add: unat_of_nat)
  with assms(2) unat_5_plus_le [of len] show ?thesis
    by (simp add: word_less_nat_alt)
qed


lemma emitFrames_leaves_incomplete:
  assumes "emitFrames buf bw w = (None, buf', bw', w')" and "length buf' < 2 ^ 32"
  shows "length buf' < 5 \<or> length buf' < 5 + unat (Uint32 (take 4 (drop 1 (take 5 buf'))))"
  using assms
proof (induction buf bw w rule: emitFrames.induct)
  case (1 buf bw w)
  show ?case
  proof (cases "5 \<le> length buf")
    case False
    with "1.prems" show ?thesis
      by (simp add: emitFrames.simps [of buf])
  next
    case long: True
    define len where "len = Uint32 (take 4 (drop 1 (take 5 buf)))"
    define hdr where "hdr = grpcDataFrame # PutUint32 len"
    define rest where "rest = drop 5 buf"
    have E: "emitFrames buf bw w =
        (if (of_nat (length buf) :: uint32) < 5 + len then (None, buf, bw, w)
         else (case bodyWriter_Write bw w hdr of
                 (Some err, bw1, w1) \<Rightarrow> (Some err, rest, bw1, w1)
               | (None, bw1, w1) \<Rightarrow>
                   (case CopyN bw1 w1 rest (unat len) of
                      (Some err, bw2, w2) \<Rightarrow> (Some err, drop (unat len) rest, bw2, w2)
                    | (None, bw2, w2) \<Rightarrow> emitFrames (drop (unat len) rest) bw2 w2)))"
      by (subst emitFrames.simps) (simp only: long if_True Let_def len_def rest_def hdr_def)
    show ?thesis
    proof (cases "(of_nat (length buf) :: uint32) < 5 + len")
      case True
      with "1.prems" have b: "buf' = buf"
        by (simp add: E)
      with "1.prems"(2) True have "length buf < 5 + unat len"
        by (intro of_nat_less_imp) simp_all
      then show ?thesis
        by (simp add: b len_def)
    next
      case nolt: False
      obtain e1 bw1 w1 where w1: "bodyWriter_Write bw w hdr = (e1, bw1, w1)"
        by (cases "bodyWriter_Write bw w hdr")
      obtain e2 bw2 w2 where c: "CopyN bw1 w1 rest (unat len) = (e2, bw2, w2)"
        by (cases "CopyN bw1 w1 rest (unat len)")
      from "1.prems"(1) nolt w1 have n1: "e1 = None"
        by (cases e1) (simp_all add: E)
      from "1.prems"(1) nolt w1 n1 c have n2: "e2 = None"
        by (cases e2) (simp_all add: E)
      have "emitFrames (drop (unat len) rest) bw2 w2 = (None, buf', bw', w')"
        using "1.prems"(1) nolt w1 n1 c n2 by (simp add: E)
      with "1.IH" [of "take 5 buf" len None "(bw1, w1)" bw1 w1 None "(bw2, w2)" bw2 w2]
        long nolt w1 n1 c n2 "1.prems"(2)
      show ?thesis
        by (simp add: len_def hdr_def rest_def)
    qed
  qed
qed

text \<open>
  The backpressure invariant holds for buffers shorter than \<open>2\<^sup>3\<^sup>2\<close> bytes,
  whatever the sink does: after a \<^verbatim>\<open>Write\<close> that returns without error, a frame buffer
  of fewer than \<open>2\<^sup>3\<^sup>2\<close> bytes holds fewer than five bytes, or fewer bytes than five plus
  the length that its first five bytes declare.
\<close>

theorem Write_leaves_incomplete_frame:
  assumes "fst (Write s p) = Inr n" and "length (frameBuffer (snd (Write s p))) < 2 ^ 32"
  shows "length (frameBuffer (snd (Write s p))) < 5 \<or>
         length (frameBuffer (snd (Write s p))) <
           5 + unat (Uint32 (take 4 (drop 1 (take 5 (frameBuffer (snd (Write s p)))))))"
proof -
  let ?s1 = "if \<not> headersWritten s then writeHeaders s else s"
  obtain e buf bw w where r: "emitFrames (frameBuffer ?s1 @ p) (bodyWriter ?s1) (rw ?s1) = (e, buf, bw, w)"
    by (cases "emitFrames (frameBuffer ?s1 @ p) (bodyWriter ?s1) (rw ?s1)")
  from assms(1) r have e: "e = None"
    by (cases e) (simp_all add: Write_def Let_def)
  have b: "frameBuffer (snd (Write s p)) = buf"
    using r e by (simp add: Write_def Let_def)
  from emitFrames_leaves_incomplete [OF r [unfolded e]] assms(2) show ?thesis
    unfolding b by simp
qed

lemma framesOf_first_chunk: "framesOf [0, 0, 0, 0, 3, 1] = (None, [0, 0, 0, 0, 3, 1], [])"
  by (subst framesOf.simps) (simp add: Let_def Uint32_def)

lemma Write_first_chunk:
  "fst (Write (NewStreamingResponseWriter NewRecorder False) [0, 0, 0, 0, 3, 1]) = Inr 6"
  "frameBuffer (snd (Write (NewStreamingResponseWriter NewRecorder False) [0, 0, 0, 0, 3, 1])) =
     [0, 0, 0, 0, 3, 1]"
proof -
  let ?s = "NewStreamingResponseWriter NewRecorder False"
  have ok: "\<not> rw_broken (rw ?s)" "bw_ok (bodyWriter ?s)"
    by (simp_all add: NewStreamingResponseWriter_ok NewRecorder_ok)
  show "fst (Write ?s [0, 0, 0, 0, 3, 1]) = Inr 6"
    "frameBuffer (snd (Write ?s [0, 0, 0, 0, 3, 1])) = [0, 0, 0, 0, 3, 1]"
    by (simp_all add: Write_ok [OF ok] NewStreamingResponseWriter_ok framesOf_first_chunk Let_def)
qed

theorem Write_leaves_incomplete_frame_witness:
  "fst (Write (NewStreamingResponseWriter NewRecorder False) [0, 0, 0, 0, 3, 1]) = Inr 6 \<and>
   frameBuffer (snd (Write (NewStreamingResponseWriter NewRecorder False) [0, 0, 0, 0, 3, 1])) =
     [0, 0, 0, 0, 3, 1] \<and>
   length [0, 0, 0, 0, 3, 1 :: byte] < 5 + unat (Uint32 (take 4 (drop 1 (take 5 [0, 0, 0, 0, 3, 1]))))"
proof -
  let ?s = "NewStreamingResponseWriter NewRecorder False"
  have "length (frameBuffer (snd (Write ?s [0, 0, 0, 0, 3, 1]))) < 2 ^ 32"
    by (simp add: Write_first_chunk)
  from Write_leaves_incomplete_frame [OF Write_first_chunk(1) this] show ?thesis
    by (simp add: Write_first_chunk)
qed

text \<open>A run without error goes on in the same way when more bytes follow.\<close>

lemma framesOf_append:
  assumes "framesOf A = (None, r, out)" and "length (A @ B) < 2 ^ 32"
  shows "framesOf (A @ B) = (case framesOf (r @ B) of (e', r', out') \<Rightarrow> (e', r', out @ out'))"
  using assms
proof (induction A arbitrary: out rule: framesOf.induct)
  case (1 A)
  show ?case
  proof (cases "5 \<le> length A")
    case False
    with "1.prems"(1) show ?thesis
      by (simp add: framesOf.simps [of A])
  next
    case long: True
    define len where "len = Uint32 (take 4 (drop 1 (take 5 A)))"
    define hdr where "hdr = grpcDataFrame # PutUint32 len"
    define rest where "rest = drop 5 A"
    have F: "framesOf A =
        (if (of_nat (length A) :: uint32) < 5 + len then (None, A, [])
         else if length rest < unat len then
           (Some EOF, drop (unat len) rest, hdr @ take (unat len) rest)
         else (case framesOf (drop (unat len) rest) of
                 (err, buf', out) \<Rightarrow> (err, buf', (hdr @ take (unat len) rest) @ out)))"
      by (subst framesOf.simps)
        (simp only: long if_True Let_def len_def rest_def hdr_def append_Cons)
    show ?thesis
    proof (cases "(of_nat (length A) :: uint32) < 5 + len")
      case True
      with "1.prems"(1) show ?thesis
        by (simp add: F)
    next
      case nolt: False
      have ns: "\<not> length rest < unat len"
        using "1.prems"(1) nolt by (auto simp add: F)
      obtain out1 where rec: "framesOf (drop (unat len) rest) = (None, r, out1)"
        and out: "out = (hdr @ take (unat len) rest) @ out1"
        using "1.prems"(1) nolt ns by (auto simp add: F split: prod.splits)
      have longB: "5 \<le> length (A @ B)"
        using long by simp
      have lenB: "Uint32 (take 4 (drop 1 (take 5 (A @ B)))) = len"
        using long by (simp add: len_def)
      have restB: "drop 5 (A @ B) = rest @ B"
        using long by (simp add: rest_def)
      have FB: "framesOf (A @ B) =
        (if (of_nat (length (A @ B)) :: uint32) < 5 + len then (None, A @ B, [])
         else if length (rest @ B) < unat len then
           (Some EOF, drop (unat len) (rest @ B), hdr @ take (unat len) (rest @ B))
         else (case framesOf (drop (unat len) (rest @ B)) of
                 (err, buf', out) \<Rightarrow> (err, buf', (hdr @ take (unat len) (rest @ B)) @ out)))"
        by (subst framesOf.simps)
          (simp only: longB if_True Let_def lenB restB hdr_def append_Cons)
      have "5 + unat len \<le> length A"
        using ns long by (simp add: rest_def)
      then have nltB: "\<not> (of_nat (length (A @ B)) :: uint32) < 5 + len"
        using "1.prems"(2) by (intro of_nat_not_less) simp_all
      have tk: "take (unat len) (rest @ B) = take (unat len) rest"
        "drop (unat len) (rest @ B) = drop (unat len) rest @ B"
        using ns by simp_all
      have "length (drop (unat len) rest @ B) < 2 ^ 32"
        using "1.prems"(2) by (simp add: rest_def)
      from "1.IH" [OF long len_def rest_def refl nolt ns rec this]
      show ?thesis
        unfolding FB using nltB ns by (simp add: tk out split: prod.splits)
    qed
  qed
qed

subsection \<open>Partial-write reassembly below four gigabytes\<close>

lemma length_writeGrpcFrame: "length (writeGrpcFrame p) = 5 + length p"
  by (simp add: writeGrpcFrame_def)

lemma framesOf_writeGrpcFrame_self:
  assumes "length p < 2 ^ 32"
  shows "framesOf (writeGrpcFrame p) = (None, [], writeGrpcFrame p)"
  using framesOf_writeGrpcFrame [OF assms] by (simp add: writeGrpcFrame_def grpcDataFrame_def)

lemma framesOf_unfold:
  assumes "5 \<le> length buf" and "Uint32 (take 4 (drop 1 (take 5 buf))) = len"
  shows "framesOf buf =
     (if (of_nat (length buf) :: uint32) < 5 + len then (None, buf, [])
      else if length (drop 5 buf) < unat len then
        (Some EOF, drop (unat len) (drop 5 buf),
         grpcDataFrame # PutUint32 len @ take (unat len) (drop 5 buf))
      else (case framesOf (drop (unat len) (drop 5 buf)) of
              (err, buf', out) \<Rightarrow>
                (err, buf', (grpcDataFrame # PutUint32 len @ take (unat len) (drop 5 buf)) @ out)))"
  by (subst framesOf.simps) (simp only: assms if_True Let_def append_Cons)

lemma framesOf_frame_prefix:
  assumes "length p < 2 ^ 32" and "5 + length p < 2 ^ 32" and "n < 5 + length p"
  shows "framesOf (take n (writeGrpcFrame p)) = (None, take n (writeGrpcFrame p), [])"
proof (cases "n < 5")
  case True
  then show ?thesis
    by (simp add: framesOf_short)
next
  case False
  define P where "P = take n (writeGrpcFrame p)"
  have l: "length P = n"
    using assms(3) by (simp add: P_def length_writeGrpcFrame)
  have u: "unat (of_nat (length p) :: uint32) = length p"
    using assms(1) by (simp add: unat_of_nat)
  have "take 5 P = take 5 (writeGrpcFrame p)"
    using False by (simp add: P_def min_def)
  then have h: "Uint32 (take 4 (drop 1 (take 5 P))) = of_nat (length p)"
    by (simp add: writeGrpcFrame_def)
  have c: "(of_nat (length P) :: uint32) < 5 + of_nat (length p)"
    unfolding l using assms by (subst of_nat_less_iff) (simp_all add: u)
  have "5 \<le> length P"
    using False l by simp
  from framesOf_unfold [OF this h] c show ?thesis
    unfolding P_def [symmetric] by simp
qed

lemma framesOf_frames_prefix:
  assumes "length (concat (map writeGrpcFrame fs)) < 2 ^ 32"
  shows "\<exists>r out. framesOf (take n (concat (map writeGrpcFrame fs))) = (None, r, out) \<and>
           out @ r = take n (concat (map writeGrpcFrame fs)) \<and>
           (length (concat (map writeGrpcFrame fs)) \<le> n \<longrightarrow> r = [])"
  using assms
proof (induction fs arbitrary: n)
  case Nil
  show ?case
    by (simp add: framesOf_short)
next
  case (Cons f fs)
  let ?S = "concat (map writeGrpcFrame fs)"
  have b: "length f < 2 ^ 32" "5 + length f < 2 ^ 32" "length ?S < 2 ^ 32"
    using Cons.prems by (simp_all add: length_writeGrpcFrame)
  show ?case
  proof (cases "n < 5 + length f")
    case True
    then have "take n (concat (map writeGrpcFrame (f # fs))) = take n (writeGrpcFrame f)"
      by (simp add: length_writeGrpcFrame)
    with framesOf_frame_prefix [OF b(1,2) True] True show ?thesis
      by (simp add: length_writeGrpcFrame)
  next
    case False
    define m where "m = n - (5 + length f)"
    have t: "take n (concat (map writeGrpcFrame (f # fs))) = writeGrpcFrame f @ take m ?S"
      using False by (simp add: length_writeGrpcFrame m_def)
    obtain r out where ih: "framesOf (take m ?S) = (None, r, out)" "out @ r = take m ?S"
      "length ?S \<le> m \<longrightarrow> r = []"
      using Cons.IH [OF b(3), of m] by blast
    have "length (writeGrpcFrame f @ take m ?S) < 2 ^ 32"
      using Cons.prems by (simp add: length_writeGrpcFrame)
    from framesOf_append [OF framesOf_writeGrpcFrame_self [OF b(1)] this]
    have "framesOf (writeGrpcFrame f @ take m ?S) = (None, r, writeGrpcFrame f @ out)"
      by (simp add: ih)
    with ih(2,3) False show ?thesis
      unfolding t by (auto simp add: length_writeGrpcFrame m_def)
  qed
qed

lemma Write_twice:
  assumes ok: "\<not> rw_broken (rw s)" "bw_ok (bodyWriter s)"
    and a: "framesOf (frameBuffer s @ a) = (None, r, out)"
    and len: "length (frameBuffer s @ a @ b) < 2 ^ 32"
  shows "snd (Write (snd (Write s a)) b) = snd (Write s (a @ b))"
proof -
  let ?s1 = "if \<not> headersWritten s then writeHeaders s else s"
  let ?sa = "snd (Write s a)"
  have sa: "?sa = ?s1\<lparr>frameBuffer := r, bodyWriter := bw_after (bodyWriter s) out,
      rw := (rw ?s1)\<lparr>rw_body := rw_body (rw s) @ bw_out (bodyWriter s) out\<rparr>\<rparr>"
    by (simp add: Write_ok [OF ok] a Let_def)
  have oka: "\<not> rw_broken (rw ?sa)" "bw_ok (bodyWriter ?sa)"
    using ok by (simp_all add: Write_keeps_ok)
  have hwa: "headersWritten ?sa"
    unfolding sa by simp
  obtain e' r' out' where b: "framesOf (r @ b) = (e', r', out')"
    by (cases "framesOf (r @ b)")
  have ab: "framesOf (frameBuffer s @ a @ b) = (e', r', out @ out')"
    using framesOf_append [of "frameBuffer s @ a" r out b] a len b by simp
  have fa: "frameBuffer ?sa = r" "bodyWriter ?sa = bw_after (bodyWriter s) out"
    "rw_body (rw ?sa) = rw_body (rw s) @ bw_out (bodyWriter s) out"
    unfolding sa by simp_all
  have W2: "snd (Write ?sa b) =
      ?sa\<lparr>frameBuffer := r', bodyWriter := bw_after (bodyWriter ?sa) out',
          rw := (rw ?sa)\<lparr>rw_body := rw_body (rw ?sa) @ bw_out (bodyWriter ?sa) out'\<rparr>\<rparr>"
    using Write_ok [OF oka, of b] by (simp add: hwa fa(1) b Let_def)
  have W: "snd (Write s (a @ b)) =
      ?s1\<lparr>frameBuffer := r', bodyWriter := bw_after (bodyWriter s) (out @ out'),
          rw := (rw ?s1)\<lparr>rw_body := rw_body (rw s) @ bw_out (bodyWriter s) (out @ out')\<rparr>\<rparr>"
    using Write_ok [OF ok, of "a @ b"] ab by (simp add: Let_def)
  show ?thesis
    unfolding W2 W fa unfolding sa by (simp add: bw_after_append bw_out_append)
qed


lemma framesOf_rest_length: "framesOf A = (e, r, out) \<Longrightarrow> length r \<le> length A"
proof (induction A arbitrary: out rule: framesOf.induct)
  case (1 A)
  show ?case
  proof (cases "5 \<le> length A")
    case False
    with "1.prems" show ?thesis
      by (simp add: framesOf.simps [of A])
  next
    case True
    define len where "len = Uint32 (take 4 (drop 1 (take 5 A)))"
    note F = framesOf_unfold [OF True len_def [symmetric]]
    show ?thesis
    proof (cases "(of_nat (length A) :: uint32) < 5 + len")
      case lt: True
      with "1.prems" show ?thesis by (simp add: F)
    next
      case nolt: False
      show ?thesis
      proof (cases "length (drop 5 A) < unat len")
        case short: True
        with "1.prems" nolt show ?thesis by (auto simp add: F)
      next
        case ns: False
        obtain out1 where "framesOf (drop (unat len) (drop 5 A)) = (e, r, out1)"
          using "1.prems" nolt ns by (auto simp add: F split: prod.splits)
        from "1.IH" [OF True len_def refl refl nolt ns this] show ?thesis
          by simp
      qed
    qed
  qed
qed

lemma concat_take_prefix: "concat (take k cs) = take (length (concat (take k cs))) (concat cs)"
proof -
  have "concat cs = concat (take k cs @ drop k cs)"
    by simp
  also have "\<dots> = concat (take k cs) @ concat (drop k cs)"
    by (rule concat_append)
  finally show ?thesis
    by simp
qed

lemma length_concat_take: "length (concat (take k cs)) \<le> length (concat cs)"
proof -
  have "length (concat (take k cs)) = length (take (length (concat (take k cs))) (concat cs))"
    using concat_take_prefix [of k cs] by simp
  then show ?thesis
    by simp
qed

lemma WriteAll_chunks:
  assumes "\<not> rw_broken (rw s)" and "bw_ok (bodyWriter s)" and "cs \<noteq> []"
    and "length (frameBuffer s @ concat cs) < 2 ^ 32"
    and "\<And>k. k \<le> length cs \<Longrightarrow> fst (framesOf (frameBuffer s @ concat (take k cs))) = None"
  shows "WriteAll s cs = snd (Write s (concat cs))"
  using assms
proof (induction cs arbitrary: s)
  case Nil
  then show ?case by simp
next
  case (Cons c cs)
  show ?case
  proof (cases "cs = []")
    case True
    then show ?thesis
      by (simp add: WriteAll_def)
  next
    case False
    let ?s' = "snd (Write s c)"
    obtain r out where a: "framesOf (frameBuffer s @ c) = (None, r, out)"
      using Cons.prems(5) [of 1] by (cases "framesOf (frameBuffer s @ c)") simp
    have ok': "\<not> rw_broken (rw ?s')" "bw_ok (bodyWriter ?s')"
      using Cons.prems(1,2) by (simp_all add: Write_keeps_ok)
    have fb: "frameBuffer ?s' = r"
      by (simp add: Write_ok [OF Cons.prems(1,2)] a Let_def)
    have rl: "length r \<le> length (frameBuffer s @ c)"
      using a by (rule framesOf_rest_length)
    have len': "length (frameBuffer ?s' @ concat cs) < 2 ^ 32"
      using Cons.prems(4) rl by (simp add: fb)
    have pre': "fst (framesOf (frameBuffer ?s' @ concat (take k cs))) = None" if "k \<le> length cs" for k
    proof -
      have "length ((frameBuffer s @ c) @ concat (take k cs)) < 2 ^ 32"
        using Cons.prems(4) length_concat_take [of k cs] by simp
      from framesOf_append [OF a this] Cons.prems(5) [of "Suc k"] that
      show ?thesis
        by (simp add: fb split: prod.splits)
    qed
    have "WriteAll s (c # cs) = WriteAll ?s' cs"
      by (simp add: WriteAll_def)
    also have "\<dots> = snd (Write ?s' (concat cs))"
      using ok' False len' pre' by (rule Cons.IH)
    also have "\<dots> = snd (Write s (c @ concat cs))"
      using Cons.prems(1,2) a Cons.prems(4) by (intro Write_twice) simp_all
    finally show ?thesis
      by simp
  qed
qed

text \<open>
  Partial-write reassembly holds for streams shorter than \<open>2\<^sup>3\<^sup>2\<close> bytes. Let a writer
  have an empty frame buffer and a sink that accepts writes, and let the chunks, put
  together, be a sequence of complete native frames of fewer than \<open>2\<^sup>3\<^sup>2\<close> bytes in all.
  Then one \<^verbatim>\<open>Write\<close> per chunk leaves the writer exactly as a single \<^verbatim>\<open>Write\<close> of all the
  bytes does: the call succeeds, the frame buffer is empty again, and in binary mode the
  sink has received the frames unchanged.
\<close>

theorem chunked_writes_below_4GiB:
  assumes "frameBuffer s = []" and "\<not> rw_broken (rw s)" and "bw_ok (bodyWriter s)"
    and "chunks \<noteq> []" and "concat chunks = concat (map writeGrpcFrame payloads)"
    and "length (concat chunks) < 2 ^ 32"
  shows "WriteAll s chunks = snd (Write s (concat chunks)) \<and>
         fst (Write s (concat chunks)) = Inr (length (concat chunks)) \<and>
         frameBuffer (WriteAll s chunks) = [] \<and>
         (bodyWriter s = ResponseWriterItself \<longrightarrow>
            rw_body (rw (WriteAll s chunks)) = rw_body (rw s) @ concat chunks)"
proof -
  let ?S = "concat (map writeGrpcFrame payloads)"
  have S: "length ?S < 2 ^ 32"
    using assms(5,6) by simp
  have pre: "fst (framesOf (frameBuffer s @ concat (take k chunks))) = None" for k
  proof -
    have "concat (take k chunks) = take (length (concat (take k chunks))) ?S"
      using concat_take_prefix [of k chunks] by (simp add: assms(5))
    then show ?thesis
      using framesOf_frames_prefix [OF S, of "length (concat (take k chunks))"]
      unfolding assms(1) by auto
  qed
  have all: "WriteAll s chunks = snd (Write s (concat chunks))"
  proof (rule WriteAll_chunks [OF assms(2,3,4)])
    show "length (frameBuffer s @ concat chunks) < 2 ^ 32"
      using assms(6) by (simp add: assms(1))
    show "fst (framesOf (frameBuffer s @ concat (take k chunks))) = None" for k
      by (rule pre)
  qed
  obtain r out where f: "framesOf (take (length ?S) ?S) = (None, r, out)"
    "out @ r = take (length ?S) ?S" "r = []"
    using framesOf_frames_prefix [OF S, of "length ?S"] by auto
  then have "framesOf ?S = (None, [], ?S)"
    by simp
  then have whole: "framesOf (concat chunks) = (None, [], concat chunks)"
    by (simp only: assms(5))
  show ?thesis
    unfolding all
    by (simp add: Write_ok [OF assms(2,3)] assms(1) whole Let_def)
qed



theorem chunked_writes_below_4GiB_witness:
  "chunkedFrame \<noteq> [] \<and> concat chunkedFrame = concat (map writeGrpcFrame [[1, 2, 3]]) \<and>
   WriteAll (NewStreamingResponseWriter NewRecorder False) chunkedFrame =
     snd (Write (NewStreamingResponseWriter NewRecorder False) (concat chunkedFrame)) \<and>
   frameBuffer (WriteAll (NewStreamingResponseWriter NewRecorder False) chunkedFrame) = [] \<and>
   rw_body (rw (WriteAll (NewStreamingResponseWriter NewRecorder False) chunkedFrame)) =
     [0, 0, 0, 0, 3, 1, 2, 3]"
proof -
  let ?s = "NewStreamingResponseWriter NewRecorder False"
  have h: "frameBuffer ?s = []" "\<not> rw_broken (rw ?s)" "bw_ok (bodyWriter ?s)"
    by (simp_all add: NewStreamingResponseWriter_ok NewRecorder_ok)
  have c: "chunkedFrame \<noteq> []" "concat chunkedFrame = concat (map writeGrpcFrame [[1, 2, 3]])"
    "length (concat chunkedFrame) < 2 ^ 32"
    by (simp_all add: chunkedFrame_def writeGrpcFrame_def PutUint32_def)
  have b: "bodyWriter ?s = ResponseWriterItself" "rw_body (rw ?s) = []"
    "concat chunkedFrame = [0, 0, 0, 0, 3, 1, 2, 3]"
    by (simp_all add: NewStreamingResponseWriter_def NewRecorder_def chunkedFrame_def)
  note T = chunked_writes_below_4GiB [OF h c]
  have 1: "WriteAll ?s chunkedFrame = snd (Write ?s (concat chunkedFrame))"
    using T by (rule conjunct1)
  have 2: "frameBuffer (WriteAll ?s chunkedFrame) = []"
    using T by blast
  have "rw_body (rw (WriteAll ?s chunkedFrame)) = rw_body (rw ?s) @ concat chunkedFrame"
    using T b(1) by blast
  then have 3: "rw_body (rw (WriteAll ?s chunkedFrame)) = [0, 0, 0, 0, 3, 1, 2, 3]"
    unfolding b(2,3) by simp
  from c(1,2) 1 2 3 show ?thesis
    by (intro conjI)
qed

end
